theory Spec2Isabelle
  imports Complex_Main "HOL-Library.Word" "HOL-Library.Code_Target_Nat"
begin

section \<open>The pull command's progress display (cli/pull.go)\<close>

text \<open>
  The theory embeds the two functions of \<^verbatim>\<open>cli/pull.go\<close> that do the work of the
  pull command's display: \<^verbatim>\<open>display\<close>, which renders one batch of progress records,
  and \<^verbatim>\<open>renderOutput\<close>, which reads the batches from the response body with a
  streaming JSON decoder and flushes one rendering per batch.  The decoding of a
  JSON value is a parameter of the decoder; the second section gives one, for the
  wire format of the progress records.

  Go strings are byte sequences, so they are \<open>string\<close> here (a list of 8-bit
  characters).  \<^verbatim>\<open>int64\<close> is \<open>64 word\<close>, read with \<open>sint\<close>; its addition wraps
  around as Go's does.  \<^verbatim>\<open>float64\<close> is the binary64 format with its rounding.
\<close>

type_synonym int64 = "64 word"

subsection \<open>Progress records\<close>

text \<open>
  Modelled from the spec: the declaration of \<^verbatim>\<open>ctrd.ProgressInfo\<close> is not in
  \<^verbatim>\<open>cli/pull.go\<close>.  The fields are the ones \<^verbatim>\<open>display\<close> reads.  \<^verbatim>\<open>Offset\<close> is added
  to an \<^verbatim>\<open>int64\<close> variable, so it is an \<^verbatim>\<open>int64\<close>; \<^verbatim>\<open>Total\<close> is compared with
  a constant and converted to \<^verbatim>\<open>float64\<close> and to \<^verbatim>\<open>progress.Bytes\<close>, and is taken
  as an \<^verbatim>\<open>int64\<close> as well.
\<close>

record ProgressInfo =
  Ref :: string
  Status :: string
  Offset :: int64
  Total :: int64
  ErrorMessage :: string

subsection \<open>\<^verbatim>\<open>fmt.Errorf\<close> with a format and no operands\<close>

text \<open>
  \<^verbatim>\<open>display\<close> calls \<^verbatim>\<open>fmt.Errorf(status.ErrorMessage)\<close>: the message is the
  \<^emph>\<open>format\<close> and there is no operand.  The functions below follow
  \<^verbatim>\<open>doPrintf\<close> of Go's package \<^verbatim>\<open>fmt\<close> (print.go) for an empty operand list:
  text up to a \<^verbatim>\<open>%\<close> is copied; after a \<^verbatim>\<open>%\<close> come flags, an optional argument
  index, a width, a precision, and the verb, and since no operand exists each
  directive other than \<^verbatim>\<open>%%\<close> is reported in the output.
\<close>

definition isDigit :: "char \<Rightarrow> bool" where
  "isDigit c = (48 \<le> (of_char c :: nat) \<and> (of_char c :: nat) \<le> 57)"

text \<open>
  \<^verbatim>\<open>parsenum\<close>: the decimal number at the head of the text.  A number that has grown
  past \<^verbatim>\<open>1e6\<close> when a further digit arrives is given up, and the scan jumps to the
  end of the text.
\<close>

fun parsenum :: "nat \<Rightarrow> bool \<Rightarrow> string \<Rightarrow> nat \<times> bool \<times> string" where
  "parsenum num isnum [] = (num, isnum, [])"
| "parsenum num isnum (c # cs) =
     (if isDigit c
      then (if 1000000 < num then (0, False, [])
            else parsenum (num * 10 + ((of_char c :: nat) - 48)) True cs)
      else (num, isnum, c # cs))"

text \<open>
  \<^verbatim>\<open>parseArgNumber\<close>: the text starts with \<^verbatim>\<open>[\<close>; the result is the index, the
  number of bytes to skip, and whether \<^verbatim>\<open>[n]\<close> was well formed.
\<close>

definition parseArgNumber :: "string \<Rightarrow> int \<times> nat \<times> bool" where
  "parseArgNumber format =
     (if length format < 3 then (0, 1, False)
      else (let inner = takeWhile (\<lambda>c. c \<noteq> CHR '']'') (tl format) in
            if length inner = length (tl format) then (0, 1, False)
            else (case parsenum 0 False inner of
                    (width, ok, rest) \<Rightarrow>
                      if \<not> ok \<or> rest \<noteq> [] then (0, length inner + 2, False)
                      else (int width - 1, length inner + 2, True))))"

text \<open>
  \<^verbatim>\<open>argNumber\<close> with \<^verbatim>\<open>numArgs = 0\<close>: no index is in range, so an index, when
  there is one, always clears \<^verbatim>\<open>goodArgNum\<close>.  The result is the remaining format,
  \<^verbatim>\<open>found\<close>, and whether \<^verbatim>\<open>goodArgNum\<close> was left alone.
\<close>

definition argNumber :: "string \<Rightarrow> string \<times> bool \<times> bool" where
  "argNumber format =
     (case format of
        [] \<Rightarrow> (format, False, True)
      | c # _ \<Rightarrow>
          if c \<noteq> CHR ''['' then (format, False, True)
          else (case parseArgNumber format of
                  (index, wid, ok) \<Rightarrow>
                    if ok \<and> 0 \<le> index \<and> index < 0 then (drop wid format, True, True)
                    else (drop wid format, ok, False)))"

text \<open>
  \<^verbatim>\<open>utf8.DecodeRuneInString\<close>, as far as the verb needs it: the length of the
  well-formed UTF-8 sequence at the head of the text, or \<open>None\<close> where Go returns
  \<^verbatim>\<open>RuneError\<close> with size 1.
\<close>

definition inRange :: "char \<Rightarrow> nat \<Rightarrow> nat \<Rightarrow> bool" where
  "inRange c lo hi = (lo \<le> (of_char c :: nat) \<and> (of_char c :: nat) \<le> hi)"

definition runeLen :: "string \<Rightarrow> nat option" where
  "runeLen s =
     (case s of
        [] \<Rightarrow> None
      | c0 # r \<Rightarrow>
          (let b0 = (of_char c0 :: nat) in
           if b0 < 0x80 then Some 1
           else if 0xC2 \<le> b0 \<and> b0 \<le> 0xDF then
             (case r of
                c1 # _ \<Rightarrow> if inRange c1 0x80 0xBF then Some 2 else None
              | _ \<Rightarrow> None)
           else if 0xE0 \<le> b0 \<and> b0 \<le> 0xEF then
             (case r of
                c1 # c2 # _ \<Rightarrow>
                  if inRange c1 (if b0 = 0xE0 then 0xA0 else 0x80)
                                (if b0 = 0xED then 0x9F else 0xBF)
                     \<and> inRange c2 0x80 0xBF
                  then Some 3 else None
              | _ \<Rightarrow> None)
           else if 0xF0 \<le> b0 \<and> b0 \<le> 0xF4 then
             (case r of
                c1 # c2 # c3 # _ \<Rightarrow>
                  if inRange c1 (if b0 = 0xF0 then 0x90 else 0x80)
                                (if b0 = 0xF4 then 0x8F else 0xBF)
                     \<and> inRange c2 0x80 0xBF \<and> inRange c3 0x80 0xBF
                  then Some 4 else None
              | _ \<Rightarrow> None)
           else None))"

definition isFlag :: "char \<Rightarrow> bool" where
  "isFlag c = (c = CHR ''#'' \<or> c = CHR ''0'' \<or> c = CHR ''+'' \<or> c = CHR ''-'' \<or> c = CHR '' '')"

text \<open>
  One directive, the text after a \<^verbatim>\<open>%\<close>, in the four steps of \<^verbatim>\<open>doPrintf\<close>.  Each
  step takes the format that remains, \<^verbatim>\<open>afterIndex\<close> and \<^verbatim>\<open>goodArgNum\<close>, and returns
  what it wrote with the three updated.
\<close>

definition dirWidth :: "string \<Rightarrow> bool \<Rightarrow> bool \<Rightarrow> string \<times> string \<times> bool \<times> bool" where
  "dirWidth s afterIndex good =
     (case s of
        [] \<Rightarrow> ([], [], afterIndex, good)
      | c # cs \<Rightarrow>
          if c = CHR ''*'' then (''%!(BADWIDTH)'', cs, False, good)
          else (case parsenum 0 False s of
                  (wid, widPresent, r) \<Rightarrow>
                    ([], r, afterIndex, good \<and> \<not> (afterIndex \<and> widPresent))))"

definition dirPrec :: "string \<Rightarrow> bool \<Rightarrow> bool \<Rightarrow> string \<times> string \<times> bool \<times> bool" where
  "dirPrec s afterIndex good =
     (case s of
        [] \<Rightarrow> ([], s, afterIndex, good)
      | c # cs \<Rightarrow>
          if c \<noteq> CHR ''.'' \<or> cs = [] then ([], s, afterIndex, good)
          else (case argNumber cs of
                  (s', afterIndex', good') \<Rightarrow>
                    (case s' of
                       [] \<Rightarrow> ([], [], afterIndex', good \<and> \<not> afterIndex \<and> good')
                     | d # ds \<Rightarrow>
                         if d = CHR ''*''
                         then (''%!(BADPREC)'', ds, False, good \<and> \<not> afterIndex \<and> good')
                         else (case parsenum 0 False s' of
                                 (prec, precPresent, r) \<Rightarrow>
                                   ([], r, afterIndex', good \<and> \<not> afterIndex \<and> good')))))"

text \<open>
  The verb: \<open>None\<close> for the remaining format is the \<^verbatim>\<open>break\<close> at a format that
  ends inside the directive.  \<^verbatim>\<open>%%\<close> writes a percent sign; every other verb has
  no operand left (\<^verbatim>\<open>argNum >= len(a)\<close>) or follows a bad index.
\<close>

definition dirVerb :: "string \<Rightarrow> bool \<Rightarrow> string \<times> string option" where
  "dirVerb s good =
     (case s of
        [] \<Rightarrow> (''%!(NOVERB)'', None)
      | c # cs \<Rightarrow>
          (let sz = (case runeLen s of Some n \<Rightarrow> n | None \<Rightarrow> 1);
               verb = (case runeLen s of Some n \<Rightarrow> take n s
                       | None \<Rightarrow> [CHR 0xEF, CHR 0xBF, CHR 0xBD])
           in if c = CHR ''%'' then (''%'', Some (drop sz s))
              else if \<not> good then (''%!'' @ verb @ ''(BADINDEX)'', Some (drop sz s))
              else (''%!'' @ verb @ ''(MISSING)'', Some (drop sz s))))"

definition directive :: "string \<Rightarrow> string \<times> string option" where
  "directive s0 =
     (case argNumber (dropWhile isFlag s0) of
        (s2, afterIndex2, good2) \<Rightarrow>
          (case dirWidth s2 afterIndex2 good2 of
             (out3, s3, afterIndex3, good3) \<Rightarrow>
               (case dirPrec s3 afterIndex3 good3 of
                  (out4, s4, afterIndex4, good4) \<Rightarrow>
                    (case (if \<not> afterIndex4 then argNumber s4 else (s4, afterIndex4, True)) of
                       (s5, afterIndex5, good5) \<Rightarrow>
                         (case dirVerb s5 (good4 \<and> good5) of
                            (out5, rest) \<Rightarrow> (out3 @ out4 @ out5, rest))))))"

lemma parsenum_length: "parsenum num isnum s = (n, b, r) \<Longrightarrow> length r \<le> length s"
  by (induction num isnum s rule: parsenum.induct) (auto split: if_splits)

lemma argNumber_length: "argNumber s = (r, found, good) \<Longrightarrow> length r \<le> length s"
  by (auto simp: argNumber_def split: list.splits if_splits prod.splits)

lemma dirWidth_length: "dirWidth s a g = (out, r, a', g') \<Longrightarrow> length r \<le> length s"
  by (auto simp: dirWidth_def split: list.splits if_splits prod.splits dest: parsenum_length)

lemma dirPrec_length: "dirPrec s a g = (out, r, a', g') \<Longrightarrow> length r \<le> length s"
  by (auto simp: dirPrec_def split: list.splits if_splits prod.splits
      dest!: parsenum_length argNumber_length)

lemma dirVerb_length: "dirVerb s g = (out, Some r) \<Longrightarrow> length r \<le> length s"
  by (auto simp: dirVerb_def Let_def split: list.splits if_splits)

lemma directive_length:
  assumes "directive s = (out, Some r)"
  shows "length r \<le> length s"
proof -
  obtain s2 a2 g2 where 1: "argNumber (dropWhile isFlag s) = (s2, a2, g2)"
    by (cases "argNumber (dropWhile isFlag s)") auto
  obtain o3 s3 a3 g3 where 2: "dirWidth s2 a2 g2 = (o3, s3, a3, g3)"
    by (cases "dirWidth s2 a2 g2") auto
  obtain o4 s4 a4 g4 where 3: "dirPrec s3 a3 g3 = (o4, s4, a4, g4)"
    by (cases "dirPrec s3 a3 g3") auto
  obtain s5 a5 g5 where 4: "(if \<not> a4 then argNumber s4 else (s4, a4, True)) = (s5, a5, g5)"
    by (cases "if \<not> a4 then argNumber s4 else (s4, a4, True)") auto
  obtain o5 where 5: "dirVerb s5 (g4 \<and> g5) = (o5, Some r)"
    using assms 1 2 3 4 by (auto simp: directive_def split: prod.splits)
  have "length s2 \<le> length (dropWhile isFlag s)"
    using 1 by (rule argNumber_length)
  moreover have "length (dropWhile isFlag s) \<le> length s"
    by (rule length_dropWhile_le)
  moreover have "length s3 \<le> length s2"
    using 2 by (rule dirWidth_length)
  moreover have "length s4 \<le> length s3"
    using 3 by (rule dirPrec_length)
  moreover have "length s5 \<le> length s4"
    using 4 by (auto split: if_splits dest: argNumber_length)
  moreover have "length r \<le> length s5"
    using 5 by (rule dirVerb_length)
  ultimately show ?thesis by linarith
qed

text \<open>
  \<^verbatim>\<open>doPrintf\<close>, the format loop: text is copied up to the next \<^verbatim>\<open>%\<close>, then one
  directive is processed.
\<close>

function doPrintf :: "string \<Rightarrow> string" where
  "doPrintf [] = []"
| "doPrintf (c # cs) =
     (if c \<noteq> CHR ''%'' then c # doPrintf cs
      else (case directive cs of
              (out, None) \<Rightarrow> out
            | (out, Some rest) \<Rightarrow> out @ doPrintf rest))"
  by pat_completeness auto
termination
proof (relation "measure length")
  show "wf (measure length)" by simp
next
  fix c :: char and cs :: string
  show "(cs, c # cs) \<in> measure length" by simp
next
  fix c :: char and cs x1 x2 rest
  assume "(x1, x2) = directive cs" "x2 = Some rest"
  then have "directive cs = (x1, Some rest)" by simp
  then have "length rest \<le> length cs" by (rule directive_length)
  then show "(rest, c # cs) \<in> measure length" by simp
qed

subsection \<open>Errors\<close>

text \<open>
  A Go \<^verbatim>\<open>error\<close> value.  \<open>ErrorString\<close> is an error made by \<^verbatim>\<open>fmt.Errorf\<close> from a
  format alone, with its message; \<open>Failed\<close> is \<^verbatim>\<open>fmt.Errorf(prefix + ": %v", err)\<close>;
  the others are the errors of the JSON decoder (further down).
\<close>

datatype tokenState =
    tokenTopValue
  | tokenArrayStart
  | tokenArrayValue
  | tokenArrayComma
  | tokenObjectStart
  | tokenObjectKey
  | tokenObjectColon
  | tokenObjectValue
  | tokenObjectComma

datatype error =
    ErrorString string
  | Failed string error
  | EOF
  | InvalidCharacter char tokenState
  | NotAtBeginningOfValue
  | ExpectedComma
  | ExpectedColon
  | IndexOutOfRange
  | ValueError string

definition Errorf :: "string \<Rightarrow> error" where
  "Errorf format = ErrorString (doPrintf format)"

subsection \<open>\<^verbatim>\<open>float64\<close>\<close>

text \<open>
  Go's \<^verbatim>\<open>float64\<close> is the IEEE 754 binary64 format.  A value is a finite real
  (\<open>Finite 0\<close> is the positive zero), the negative zero, an infinity or a NaN.
  \<open>round64\<close> rounds a real to the nearest value of the format, a tie to the even
  significand: \<open>expo\<close> is the binary exponent of the real, not below \<open>- 1022\<close>, the
  exponent of the subnormal values, and not above 1023 (\<open>expoFrom\<close> tries the
  exponents from the largest down); the values with this exponent are the multiples
  of \<open>2 powi (expo x - 52)\<close>; a result of magnitude \<open>2 powi 1024\<close> or more is an
  infinity.
\<close>

datatype float64 = Finite real | NegZero | PosInf | NegInf | NaN

fun expoFrom :: "nat \<Rightarrow> real \<Rightarrow> int" where
  "expoFrom 0 x = - 1022"
| "expoFrom (Suc n) x =
     (if 2 powi (int (Suc n) - 1022) \<le> x then int (Suc n) - 1022 else expoFrom n x)"

definition expo :: "real \<Rightarrow> int" where
  "expo x = expoFrom 2045 \<bar>x\<bar>"

definition roundEven :: "real \<Rightarrow> int" where
  "roundEven y =
     (let f = \<lfloor>y\<rfloor>; d = y - of_int f
      in if d < 1 / 2 then f else if 1 / 2 < d then f + 1 else if even f then f else f + 1)"

definition round64 :: "real \<Rightarrow> float64" where
  "round64 x =
     (let ulp = 2 powi (expo x - 52); r = of_int (roundEven (x / ulp)) * ulp
      in if 2 powi 1024 \<le> \<bar>r\<bar> then (if 0 < r then PosInf else NegInf)
         else if r = 0 \<and> x < 0 then NegZero
         else Finite r)"

text \<open>
  The conversion \<^verbatim>\<open>float64(n)\<close> of an \<^verbatim>\<open>int64\<close> and the quotient \<^verbatim>\<open>a / b\<close> of two
  \<^verbatim>\<open>float64\<close> are the correctly rounded ones.  A division by zero does not panic:
  the quotient is an infinity, or NaN for \<^verbatim>\<open>0 / 0\<close>.
\<close>

definition float64_of_int64 :: "int64 \<Rightarrow> float64" where
  "float64_of_int64 n = round64 (real_of_int (sint n))"

fun signbit :: "float64 \<Rightarrow> bool" where
  "signbit (Finite x) = (x < 0)"
| "signbit NegZero = True"
| "signbit PosInf = False"
| "signbit NegInf = True"
| "signbit NaN = False"

fun isInf :: "float64 \<Rightarrow> bool" where
  "isInf PosInf = True"
| "isInf NegInf = True"
| "isInf _ = False"

fun isZero :: "float64 \<Rightarrow> bool" where
  "isZero (Finite x) = (x = 0)"
| "isZero NegZero = True"
| "isZero _ = False"

fun finiteVal :: "float64 \<Rightarrow> real" where
  "finiteVal (Finite x) = x"
| "finiteVal _ = 0"

definition fdiv :: "float64 \<Rightarrow> float64 \<Rightarrow> float64" where
  "fdiv a b =
     (if a = NaN \<or> b = NaN \<or> (isInf a \<and> isInf b) \<or> (isZero a \<and> isZero b) then NaN
      else if isInf a \<or> isZero b then (if signbit a = signbit b then PosInf else NegInf)
      else if isZero a \<or> isInf b then (if signbit a = signbit b then Finite 0 else NegZero)
      else round64 (finiteVal a / finiteVal b))"


subsection \<open>Writers\<close>

text \<open>
  \<^verbatim>\<open>display\<close> writes with \<^verbatim>\<open>fmt.Fprintf\<close> only.  A writer is modelled by the calls
  it has received, in order: each call is its format and its operands.  The text
  that the formatting verbs make of the operands (the bar's glyphs, the byte
  sizes) is the work of the packages \<^verbatim>\<open>fmt\<close> and \<^verbatim>\<open>progress\<close> and is not modelled.

  A \<^verbatim>\<open>progress.Bar\<close> is a \<^verbatim>\<open>float64\<close>.  Durations are nanosecond counts.
\<close>

datatype operand =
    Str string
  | Bar float64
  | Bytes int64
  | Seconds int
  | BytesPerSecond int64 int

type_synonym writer = "(string \<times> operand list) list"

definition Fprintf :: "writer \<Rightarrow> string \<Rightarrow> operand list \<Rightarrow> writer" where
  "Fprintf w format a = w @ [(format, a)]"

text \<open>The three formats of \<^verbatim>\<open>display\<close>; \<^verbatim>\<open>\t\<close> is byte 9 and \<^verbatim>\<open>\n\<close> is byte 10.\<close>

definition sizedFormat :: string where
  "sizedFormat = ''%s:'' @ [CHR 0x09] @ ''%s'' @ [CHR 0x09] @ ''%40r'' @ [CHR 0x09]
                 @ ''%8.8s/%s'' @ [CHR 0x09, CHR 0x0A]"

definition plainFormat :: string where
  "plainFormat = ''%s:'' @ [CHR 0x09] @ ''%s'' @ [CHR 0x09] @ ''%40r'' @ [CHR 0x09, CHR 0x0A]"

definition summaryFormat :: string where
  "summaryFormat = ''elapsed: %-4.1fs'' @ [CHR 0x09] @ ''total: %7.6v'' @ [CHR 0x09]
                   @ ''(%v)'' @ [CHR 0x09, CHR 0x0A]"

subsection \<open>\<^verbatim>\<open>display\<close>\<close>

text \<open>
  The loop of \<^verbatim>\<open>display\<close> over the batch, with the writer and the running
  \<^verbatim>\<open>total\<close> (here \<open>tot\<close>) as state.  The writer is returned on the error path as well: the lines
  written before the failing record stay in it.
\<close>

fun display_range :: "writer \<Rightarrow> int64 \<Rightarrow> ProgressInfo list \<Rightarrow> error option \<times> writer \<times> int64" where
  "display_range w tot [] = (None, w, tot)"
| "display_range w tot (status # statuses) =
     (if ErrorMessage status \<noteq> [] then (Some (Errorf (ErrorMessage status)), w, tot)
      else
        (let tot' = tot + Offset status in
         if Status status = ''downloading'' \<or> Status status = ''uploading'' then
           (let bar = (if 0 < sint (Total status)
                       then fdiv (float64_of_int64 (Offset status))
                                 (float64_of_int64 (Total status))
                       else Finite 0)
            in display_range
                 (Fprintf w sizedFormat
                    [Str (Ref status), Str (Status status), Bar bar,
                     Bytes (Offset status), Bytes (Total status)])
                 tot' statuses)
         else if Status status = ''resolving'' \<or> Status status = ''waiting'' then
           display_range
             (Fprintf w plainFormat [Str (Ref status), Str (Status status), Bar (Finite 0)])
             tot' statuses
         else
           display_range
             (Fprintf w plainFormat [Str (Ref status), Str (Status status), Bar (Finite 1)])
             tot' statuses))"

text \<open>
  \<^verbatim>\<open>display(w, statuses, start)\<close>.  \<open>now1\<close> and \<open>now2\<close> are the clock's readings at
  the two calls of \<^verbatim>\<open>time.Since(start)\<close> in the summary line.
\<close>

definition display :: "writer \<Rightarrow> ProgressInfo list \<Rightarrow> int \<Rightarrow> int \<Rightarrow> int \<Rightarrow> error option \<times> writer" where
  "display w statuses start now1 now2 =
     (case display_range w 0 statuses of
        (Some err, w', tot) \<Rightarrow> (Some err, w')
      | (None, w', tot) \<Rightarrow>
          (None, Fprintf w' summaryFormat
                   [Seconds (now1 - start), Bytes tot, BytesPerSecond tot (now2 - start)]))"

subsection \<open>The streaming JSON decoder\<close>

text \<open>
  \<^verbatim>\<open>renderOutput\<close> drives a \<^verbatim>\<open>json.Decoder\<close> with \<^verbatim>\<open>Token\<close>, \<^verbatim>\<open>More\<close> and
  \<^verbatim>\<open>Decode\<close>.  The decoder is Go's package \<^verbatim>\<open>encoding/json\<close> (stream.go); its
  token machine is modelled here as that file has it.  The response body is the
  text it delivers before \<^verbatim>\<open>io.EOF\<close>; a read that fails otherwise is not modelled.
  \<open>buf\<close> is the unread input, \<^verbatim>\<open>dec.buf[dec.scanp:]\<close> with what the reader still
  holds.
\<close>

record Decoder =
  buf :: string
  tokenState :: tokenState
  tokenStack :: "tokenState list"

definition NewDecoder :: "string \<Rightarrow> Decoder" where
  "NewDecoder r = \<lparr>buf = r, tokenState = tokenTopValue, tokenStack = []\<rparr>"

text \<open>
  What the decoder does with one JSON value is not in the repository: scanning
  the value's text and storing it into a Go variable.  It is a parameter.
  \<open>readValue b\<close> is the number of bytes at the head of \<open>b\<close> that make the next
  value, or the error of a text that does not start with one; the three
  \<open>unmarshal\<close> functions store a value's text into an \<^verbatim>\<open>interface{}\<close>, a
  \<^verbatim>\<open>string\<close> and a \<^verbatim>\<open>[]ctrd.ProgressInfo\<close> that is \<^verbatim>\<open>nil\<close> before.
\<close>

record json =
  readValue :: "string \<Rightarrow> error + nat"
  unmarshalAny :: "string \<Rightarrow> error option"
  unmarshalString :: "string \<Rightarrow> error option"
  unmarshalBatch :: "string \<Rightarrow> error option \<times> ProgressInfo list"

definition isSpace :: "char \<Rightarrow> bool" where
  "isSpace c = (c = CHR '' '' \<or> c = CHR 0x09 \<or> c = CHR 0x0D \<or> c = CHR 0x0A)"

text \<open>\<^verbatim>\<open>peek\<close>: the next byte that is not white space, which stays unread.\<close>

definition peek :: "Decoder \<Rightarrow> (error + char) \<times> Decoder" where
  "peek dec =
     (case dropWhile isSpace (buf dec) of
        [] \<Rightarrow> (Inl EOF, dec)
      | c # cs \<Rightarrow> (Inr c, dec\<lparr>buf := c # cs\<rparr>))"

definition More :: "Decoder \<Rightarrow> bool \<times> Decoder" where
  "More dec =
     (case peek dec of
        (Inl err, d) \<Rightarrow> (False, d)
      | (Inr c, d) \<Rightarrow> (c \<noteq> CHR '']'' \<and> c \<noteq> CHR ''}'', d))"

definition tokenPrepareForDecode :: "Decoder \<Rightarrow> error option \<times> Decoder" where
  "tokenPrepareForDecode dec =
     (if tokenState dec = tokenArrayComma then
        (case peek dec of
           (Inl err, d) \<Rightarrow> (Some err, d)
         | (Inr c, d) \<Rightarrow>
             if c \<noteq> CHR '','' then (Some ExpectedComma, d)
             else (None, d\<lparr>buf := tl (buf d), tokenState := tokenArrayValue\<rparr>))
      else if tokenState dec = tokenObjectColon then
        (case peek dec of
           (Inl err, d) \<Rightarrow> (Some err, d)
         | (Inr c, d) \<Rightarrow>
             if c \<noteq> CHR '':'' then (Some ExpectedColon, d)
             else (None, d\<lparr>buf := tl (buf d), tokenState := tokenObjectValue\<rparr>))
      else (None, dec))"

definition tokenValueAllowed :: "Decoder \<Rightarrow> bool" where
  "tokenValueAllowed dec =
     (tokenState dec = tokenTopValue \<or> tokenState dec = tokenArrayStart
      \<or> tokenState dec = tokenArrayValue \<or> tokenState dec = tokenObjectValue)"

definition tokenValueEnd :: "Decoder \<Rightarrow> Decoder" where
  "tokenValueEnd dec =
     (if tokenState dec = tokenArrayStart \<or> tokenState dec = tokenArrayValue
      then dec\<lparr>tokenState := tokenArrayComma\<rparr>
      else if tokenState dec = tokenObjectValue
      then dec\<lparr>tokenState := tokenObjectComma\<rparr>
      else dec)"

text \<open>
  \<^verbatim>\<open>Decode(v)\<close>: \<open>unmarshal\<close> stores the value's text into the variable, \<open>v0\<close> is
  what the variable holds when no value is stored.  An error of \<open>unmarshal\<close> is
  returned after the value has been consumed.
\<close>

definition Decode :: "json \<Rightarrow> (string \<Rightarrow> error option \<times> 'a) \<Rightarrow> 'a \<Rightarrow> Decoder
                      \<Rightarrow> error option \<times> 'a \<times> Decoder" where
  "Decode lib unmarshal v0 dec =
     (case tokenPrepareForDecode dec of
        (Some err, d) \<Rightarrow> (Some err, v0, d)
      | (None, d) \<Rightarrow>
          if \<not> tokenValueAllowed d then (Some NotAtBeginningOfValue, v0, d)
          else (case readValue lib (buf d) of
                  Inl err \<Rightarrow> (Some err, v0, d)
                | Inr n \<Rightarrow>
                    (case unmarshal (take n (buf d)) of
                       (err, v) \<Rightarrow> (err, v, tokenValueEnd (d\<lparr>buf := drop n (buf d)\<rparr>)))))"

text \<open>
  A token is a delimiter or another value; of the latter the model keeps the
  text.  \<^verbatim>\<open>renderOutput\<close> discards the tokens it reads.
\<close>

datatype token = Delim char | Scalar string

definition tokenError :: "Decoder \<Rightarrow> char \<Rightarrow> (error + token) \<times> Decoder" where
  "tokenError dec c = (Inl (InvalidCharacter c (tokenState dec)), dec)"

text \<open>
  Closing a bracket pops the state that the opening one pushed.  Go indexes the
  stack's last element, which panics on an empty stack; the states that let a
  closing bracket through are entered by a push only.
\<close>

definition popState :: "Decoder \<Rightarrow> char \<Rightarrow> (error + token) \<times> Decoder" where
  "popState dec c =
     (if tokenStack dec = [] then (Inl IndexOutOfRange, dec)
      else (Inr (Delim c),
            tokenValueEnd (dec\<lparr>buf := tl (buf dec), tokenState := last (tokenStack dec),
                               tokenStack := butlast (tokenStack dec)\<rparr>)))"

definition pushState :: "Decoder \<Rightarrow> char \<Rightarrow> tokenState \<Rightarrow> (error + token) \<times> Decoder" where
  "pushState dec c new =
     (Inr (Delim c),
      dec\<lparr>buf := tl (buf dec), tokenStack := tokenStack dec @ [tokenState dec],
          tokenState := new\<rparr>)"

lemma peek_length:
  assumes "peek dec = (r, d)"
  shows "length (buf d) \<le> length (buf dec)"
proof (cases "dropWhile isSpace (buf dec)")
  case Nil
  with assms show ?thesis by (simp add: peek_def)
next
  case (Cons c cs)
  with assms have "buf d = dropWhile isSpace (buf dec)" by (auto simp: peek_def)
  then show ?thesis by (simp add: length_dropWhile_le)
qed

lemma peek_Inr_buf:
  assumes "peek dec = (Inr c, d)"
  shows "buf d \<noteq> [] \<and> hd (buf d) = c"
  using assms by (auto simp: peek_def split: list.splits)

text \<open>
  \<^verbatim>\<open>Token\<close>.  The loop of the Go function goes round again after a colon or a
  comma that the state expects; each round consumes that byte.
\<close>

function Token :: "json \<Rightarrow> Decoder \<Rightarrow> (error + token) \<times> Decoder" where
  "Token lib dec =
     (case peek dec of
        (Inl err, d) \<Rightarrow> (Inl err, d)
      | (Inr c, d) \<Rightarrow>
          if c = CHR ''['' then
            (if \<not> tokenValueAllowed d then tokenError d c
             else pushState d c tokenArrayStart)
          else if c = CHR '']'' then
            (if tokenState d \<noteq> tokenArrayStart \<and> tokenState d \<noteq> tokenArrayComma
             then tokenError d c
             else popState d c)
          else if c = CHR ''{'' then
            (if \<not> tokenValueAllowed d then tokenError d c
             else pushState d c tokenObjectStart)
          else if c = CHR ''}'' then
            (if tokenState d \<noteq> tokenObjectStart \<and> tokenState d \<noteq> tokenObjectComma
             then tokenError d c
             else popState d c)
          else if c = CHR '':'' then
            (if tokenState d \<noteq> tokenObjectColon then tokenError d c
             else Token lib (d\<lparr>buf := tl (buf d), tokenState := tokenObjectValue\<rparr>))
          else if c = CHR '','' then
            (if tokenState d = tokenArrayComma
             then Token lib (d\<lparr>buf := tl (buf d), tokenState := tokenArrayValue\<rparr>)
             else if tokenState d = tokenObjectComma
             then Token lib (d\<lparr>buf := tl (buf d), tokenState := tokenObjectKey\<rparr>)
             else tokenError d c)
          else if c = CHR 0x22
                  \<and> (tokenState d = tokenObjectStart \<or> tokenState d = tokenObjectKey) then
            (case Decode lib (\<lambda>x. (unmarshalString lib x, x)) [] (d\<lparr>tokenState := tokenTopValue\<rparr>) of
               (Some err, x, d') \<Rightarrow> (Inl err, d'\<lparr>tokenState := tokenState d\<rparr>)
             | (None, x, d') \<Rightarrow> (Inr (Scalar x), d'\<lparr>tokenState := tokenObjectColon\<rparr>))
          else
            (if \<not> tokenValueAllowed d then tokenError d c
             else (case Decode lib (\<lambda>x. (unmarshalAny lib x, x)) [] d of
                     (Some err, x, d') \<Rightarrow> (Inl err, d')
                   | (None, x, d') \<Rightarrow> (Inr (Scalar x), d'))))"
  by pat_completeness auto
termination
proof (relation "measure (\<lambda>(lib, dec). length (buf dec))")
  show "wf (measure (\<lambda>(lib, dec). length (buf dec)))" by simp
next
  fix lib :: json and dec d :: Decoder and r c
  assume p: "(r, d) = peek dec" "r = Inr c"
  then have "peek dec = (Inr c, d)" by simp
  from peek_length [OF this] peek_Inr_buf [OF this]
  have "length (tl (buf d)) < length (buf dec)"
    by (cases "buf d") auto
  then show "((lib, d\<lparr>buf := tl (buf d), tokenState := tokenObjectValue\<rparr>), lib, dec)
             \<in> measure (\<lambda>(lib, dec). length (buf dec))"
    and "((lib, d\<lparr>buf := tl (buf d), tokenState := tokenArrayValue\<rparr>), lib, dec)
             \<in> measure (\<lambda>(lib, dec). length (buf dec))"
    and "((lib, d\<lparr>buf := tl (buf d), tokenState := tokenObjectKey\<rparr>), lib, dec)
             \<in> measure (\<lambda>(lib, dec). length (buf dec))"
    by simp_all
qed

declare Token.simps [simp del]

subsection \<open>\<^verbatim>\<open>renderOutput\<close>\<close>

text \<open>
  The state of \<^verbatim>\<open>renderOutput\<close>: the decoder, the two writers and the terminal.
  \<open>tw\<close> is the \<^verbatim>\<open>tabwriter\<close> of the current round of the loop, which holds the
  lines until it is flushed into \<open>fw\<close>; \<open>fw\<close> is the buffer of the
  \<^verbatim>\<open>progress.Writer\<close>, whose \<^verbatim>\<open>Write\<close> appends to the buffer and whose \<^verbatim>\<open>Flush\<close>
  writes a buffer that is not empty to \<^verbatim>\<open>os.Stdout\<close> (after erasing the lines of
  the screen before, which is not modelled) and resets it.  \<open>stdout\<close> holds one
  rendering per such write.  \<open>ticks\<close> counts the clock readings taken.

  A writer holds the calls of \<^verbatim>\<open>Fprintf\<close>, not the text they produce, so the division
  of the unwritten text between \<open>tw\<close> and \<open>fw\<close> is the one of the calls of
  \<^verbatim>\<open>Flush\<close> in \<^verbatim>\<open>renderOutput\<close>.  (\<^verbatim>\<open>text/tabwriter\<close> hands the text it holds to
  the writer below it also at a form feed and at the end of a line of one cell,
  which a \<^verbatim>\<open>Ref\<close> or a \<^verbatim>\<open>Status\<close> with such a character would produce.  The text
  then waits in the buffer of the \<^verbatim>\<open>progress.Writer\<close>, which writes to the terminal
  in its \<^verbatim>\<open>Flush\<close> only; \<open>stdout\<close> is the same either way.)
\<close>

record state =
  dec :: Decoder
  tw :: writer
  fw :: writer
  stdout :: "writer list"
  ticks :: nat

definition twFlush :: "state \<Rightarrow> state" where
  "twFlush st = st\<lparr>fw := fw st @ tw st, tw := []\<rparr>"

definition fwFlush :: "state \<Rightarrow> state" where
  "fwFlush st = (if fw st = [] then st else st\<lparr>stdout := stdout st @ [fw st], fw := []\<rparr>)"

text \<open>
  One round of the loop of \<^verbatim>\<open>renderOutput\<close>, entered after \<^verbatim>\<open>dec.More()\<close>: a new
  \<^verbatim>\<open>tabwriter\<close>, \<^verbatim>\<open>Decode\<close>, \<^verbatim>\<open>display\<close>, and the two flushes.  \<open>clock k\<close> is the
  \<open>k\<close>-th reading of the clock.
\<close>

definition renderBatch :: "json \<Rightarrow> (nat \<Rightarrow> int) \<Rightarrow> int \<Rightarrow> state \<Rightarrow> error option \<times> state" where
  "renderBatch lib clock start st =
     (case Decode lib (unmarshalBatch lib) [] (dec st) of
        (Some err, objs, d) \<Rightarrow> (Some (Failed ''failed to decode'' err), st\<lparr>dec := d, tw := []\<rparr>)
      | (None, objs, d) \<Rightarrow>
          (case display [] objs start (clock (ticks st)) (clock (ticks st + 1)) of
             (Some err, w) \<Rightarrow> (Some err, st\<lparr>dec := d, tw := w\<rparr>)
           | (None, w) \<Rightarrow>
               (None, fwFlush (twFlush (st\<lparr>dec := d, tw := w, ticks := ticks st + 2\<rparr>)))))"

text \<open>
  The loop.  It ends when \<^verbatim>\<open>More\<close> is false or a round returns an error; a
  decoder that returned values without consuming input would keep it running.
\<close>

partial_function (option) renderLoop ::
  "json \<Rightarrow> (nat \<Rightarrow> int) \<Rightarrow> int \<Rightarrow> state \<Rightarrow> (error option \<times> state) option" where
  "renderLoop lib clock start st =
     (case More (dec st) of
        (again, d) \<Rightarrow>
          if again then
            (case renderBatch lib clock start (st\<lparr>dec := d\<rparr>) of
               (Some err, st') \<Rightarrow> Some (Some err, st')
             | (None, st') \<Rightarrow> renderLoop lib clock start st')
          else Some (None, st\<lparr>dec := d\<rparr>))"

declare renderLoop.simps [code]

text \<open>
  \<^verbatim>\<open>renderOutput(responseBody)\<close>: the result is the error returned (\<open>None\<close> for
  \<^verbatim>\<open>nil\<close>) with the final state.
\<close>

definition renderOutput :: "json \<Rightarrow> (nat \<Rightarrow> int) \<Rightarrow> string \<Rightarrow> (error option \<times> state) option" where
  "renderOutput lib clock responseBody =
     (let start = clock 0;
          st = \<lparr>dec = NewDecoder responseBody, tw = [], fw = [], stdout = [], ticks = 1\<rparr>
      in case Token lib (dec st) of
           (Inl err, d) \<Rightarrow>
             Some (Some (Failed ''failed to read the opening token'' err), st\<lparr>dec := d\<rparr>)
         | (Inr t, d) \<Rightarrow>
             (case renderLoop lib clock start (st\<lparr>dec := d\<rparr>) of
                None \<Rightarrow> None
              | Some (Some err, st') \<Rightarrow> Some (Some err, st')
              | Some (None, st') \<Rightarrow>
                  (case Token lib (dec st') of
                     (Inl err, d') \<Rightarrow>
                       Some (Some (Failed ''failed to read the closing token'' err),
                             st'\<lparr>dec := d'\<rparr>)
                   | (Inr t', d') \<Rightarrow> Some (None, st'\<lparr>dec := d'\<rparr>))))"

section \<open>The wire format\<close>

subsection \<open>Encoding\<close>

text \<open>
  Modelled from the spec: the producer that encodes the batches is not in
  \<^verbatim>\<open>cli/pull.go\<close>.  A string is written between quotes, with a backslash before a
  quote and a backslash, \<^verbatim>\<open>\n\<close>, \<^verbatim>\<open>\r\<close> and \<^verbatim>\<open>\t\<close> for these three, and \<^verbatim>\<open>\u00XX\<close> for
  the other bytes below \<open>0x20\<close> and for \<^verbatim>\<open><\<close>, \<^verbatim>\<open>>\<close> and \<^verbatim>\<open>&\<close>; every other byte is
  written as it is.  An \<^verbatim>\<open>int64\<close> is written in decimal.
\<close>

definition hexDigit :: "nat \<Rightarrow> char" where
  "hexDigit d = (if d < 10 then char_of (48 + d) else char_of (87 + d))"

definition escape :: "char \<Rightarrow> string" where
  "escape c =
     (if c = CHR 0x22 then [CHR 0x5C, CHR 0x22]
      else if c = CHR 0x5C then [CHR 0x5C, CHR 0x5C]
      else if c = CHR 0x0A then [CHR 0x5C, CHR ''n'']
      else if c = CHR 0x0D then [CHR 0x5C, CHR ''r'']
      else if c = CHR 0x09 then [CHR 0x5C, CHR ''t'']
      else if (of_char c :: nat) < 0x20 \<or> c = CHR ''<'' \<or> c = CHR ''>'' \<or> c = CHR ''&''
      then [CHR 0x5C, CHR ''u'', CHR ''0'', CHR ''0'',
            hexDigit ((of_char c :: nat) div 16), hexDigit ((of_char c :: nat) mod 16)]
      else [c])"

definition encodeString :: "string \<Rightarrow> string" where
  "encodeString s = CHR 0x22 # concat (map escape s) @ [CHR 0x22]"

function showNat :: "nat \<Rightarrow> string" where
  "showNat n = (if n < 10 then [char_of (48 + n)] else showNat (n div 10) @ [char_of (48 + n mod 10)])"
  by pat_completeness auto
termination
  by (relation "measure id") auto

declare showNat.simps [simp del]

definition encodeInt64 :: "int64 \<Rightarrow> string" where
  "encodeInt64 v = (if sint v < 0 then CHR ''-'' # showNat (nat (- sint v)) else showNat (nat (sint v)))"

text \<open>
  Modelled from the spec: a record is the JSON object with the five fields of the
  wire format, a batch is the JSON array of its records.
\<close>

definition encodeInfo :: "ProgressInfo \<Rightarrow> string" where
  \<open>encodeInfo e =
     ''{"reference":'' @ encodeString (Ref e)
     @ '',"status":'' @ encodeString (Status e)
     @ '',"offset":'' @ encodeInt64 (Offset e)
     @ '',"total":'' @ encodeInt64 (Total e)
     @ '',"errorMessage":'' @ encodeString (ErrorMessage e) @ ''}''\<close>

fun encodeInfos :: "ProgressInfo list \<Rightarrow> string" where
  "encodeInfos [] = []"
| "encodeInfos [e] = encodeInfo e"
| "encodeInfos (e # es) = encodeInfo e @ '','' @ encodeInfos es"

definition encodeBatch :: "ProgressInfo list \<Rightarrow> string" where
  "encodeBatch batch = ''['' @ encodeInfos batch @ '']''"


subsection \<open>Decoding\<close>

text \<open>
  Modelled from the spec: what \<^verbatim>\<open>Decode\<close> does with the text of a value is the work
  of Go's \<^verbatim>\<open>encoding/json\<close>.  The functions below read the JSON grammar: white space
  between tokens, strings with their escapes (\<^verbatim>\<open>\uXXXX\<close> is written out in UTF-8, a
  surrogate pair as one code point, a lone surrogate as U+FFFD), numbers, and the
  three literals.  A byte above \<open>0x7F\<close> in a string is copied as it is; Go's decoder
  replaces ill-formed UTF-8 by U+FFFD.
\<close>

definition skipWs :: "string \<Rightarrow> string" where
  "skipWs s = dropWhile isSpace s"

definition hexVal :: "char \<Rightarrow> nat option" where
  "hexVal c =
     (let b = (of_char c :: nat) in
      if 48 \<le> b \<and> b \<le> 57 then Some (b - 48)
      else if 97 \<le> b \<and> b \<le> 102 then Some (b - 87)
      else if 65 \<le> b \<and> b \<le> 70 then Some (b - 55)
      else None)"

definition hex4 :: "string \<Rightarrow> nat option" where
  "hex4 s =
     (case s of
        a # b # c # d # _ \<Rightarrow>
          (case (hexVal a, hexVal b, hexVal c, hexVal d) of
             (Some x, Some y, Some z, Some w) \<Rightarrow> Some (((x * 16 + y) * 16 + z) * 16 + w)
           | _ \<Rightarrow> None)
      | _ \<Rightarrow> None)"

definition utf8 :: "nat \<Rightarrow> string" where
  "utf8 cp =
     (if cp < 0x80 then [char_of cp]
      else if cp < 0x800 then [char_of (0xC0 + cp div 64), char_of (0x80 + cp mod 64)]
      else if cp < 0x10000 then
        [char_of (0xE0 + cp div 4096), char_of (0x80 + cp div 64 mod 64),
         char_of (0x80 + cp mod 64)]
      else
        [char_of (0xF0 + cp div 262144), char_of (0x80 + cp div 4096 mod 64),
         char_of (0x80 + cp div 64 mod 64), char_of (0x80 + cp mod 64)])"

definition simpleEscape :: "char \<Rightarrow> char option" where
  "simpleEscape e =
     (if e = CHR 0x22 \<or> e = CHR 0x5C \<or> e = CHR ''/'' then Some e
      else if e = CHR ''b'' then Some (CHR 0x08)
      else if e = CHR ''f'' then Some (CHR 0x0C)
      else if e = CHR ''n'' then Some (CHR 0x0A)
      else if e = CHR ''r'' then Some (CHR 0x0D)
      else if e = CHR ''t'' then Some (CHR 0x09)
      else None)"

definition lowSurrogate :: "string \<Rightarrow> nat option" where
  "lowSurrogate s =
     (case s of
        c # u # h \<Rightarrow>
          if c = CHR 0x5C \<and> u = CHR ''u'' then
            (case hex4 h of
               Some cp \<Rightarrow> if 0xDC00 \<le> cp \<and> cp < 0xE000 then Some cp else None
             | None \<Rightarrow> None)
          else None
      | _ \<Rightarrow> None)"

text \<open>
  One step inside a string, at a byte \<open>c\<close> other than the closing quote: the bytes it
  stands for and the input after it.
\<close>

definition stringStep :: "char \<Rightarrow> string \<Rightarrow> (string \<times> string) option" where
  "stringStep c r =
     (if c = CHR 0x5C then
        (case r of
           [] \<Rightarrow> None
         | e # r' \<Rightarrow>
             if e = CHR ''u'' then
               (case hex4 r' of
                  None \<Rightarrow> None
                | Some cp \<Rightarrow>
                    if 0xD800 \<le> cp \<and> cp < 0xDC00 then
                      (case lowSurrogate (drop 4 r') of
                         Some cp2 \<Rightarrow>
                           Some (utf8 (0x10000 + (cp - 0xD800) * 0x400 + (cp2 - 0xDC00)),
                                 drop 10 r')
                       | None \<Rightarrow> Some (utf8 0xFFFD, drop 4 r'))
                    else if 0xDC00 \<le> cp \<and> cp < 0xE000 then Some (utf8 0xFFFD, drop 4 r')
                    else Some (utf8 cp, drop 4 r'))
             else (case simpleEscape e of
                     None \<Rightarrow> None
                   | Some b \<Rightarrow> Some ([b], r')))
      else if (of_char c :: nat) < 0x20 then None
      else Some ([c], r))"

lemma stringStep_length: "stringStep c r = Some (bs, r') \<Longrightarrow> length r' \<le> length r"
  by (auto simp: stringStep_def split: if_splits list.splits option.splits)

function unquote :: "string \<Rightarrow> string \<Rightarrow> (string \<times> string) option" where
  "unquote acc [] = None"
| "unquote acc (c # r) =
     (if c = CHR 0x22 then Some (acc, r)
      else (case stringStep c r of
              None \<Rightarrow> None
            | Some (bs, r') \<Rightarrow> unquote (acc @ bs) r'))"
  by pat_completeness auto
termination
proof (relation "measure (\<lambda>(acc, s). length s)")
  show "wf (measure (\<lambda>(acc, s). length s))" by simp
next
  fix acc :: string and c r x2 bs r'
  assume "stringStep c r = Some x2" "(bs, r') = x2"
  then have "stringStep c r = Some (bs, r')" by simp
  then have "length r' \<le> length r" by (rule stringStep_length)
  then show "((acc @ bs, r'), acc, c # r) \<in> measure (\<lambda>(acc, s). length s)" by simp
qed

lemma unquote_length: "unquote acc s = Some (v, rest) \<Longrightarrow> length rest < length s"
proof (induction acc s rule: unquote.induct)
  case (1 acc)
  then show ?case by simp
next
  case (2 acc c r)
  show ?case
  proof (cases "c = CHR 0x22")
    case True
    with "2.prems" show ?thesis by simp
  next
    case False
    with "2.prems" obtain bs r' where s: "stringStep c r = Some (bs, r')"
      and u: "unquote (acc @ bs) r' = Some (v, rest)"
      by (auto split: option.splits)
    from "2.IH" [OF False s refl u] stringStep_length [OF s] show ?thesis by simp
  qed
qed


text \<open>
  Modelled from the spec: an integer field takes a JSON number without fraction
  and exponent that lies in the range of \<^verbatim>\<open>int64\<close>.
\<close>

definition digitsVal :: "string \<Rightarrow> nat" where
  "digitsVal ds = foldl (\<lambda>a c. a * 10 + ((of_char c :: nat) - 48)) 0 ds"

definition parseInt64 :: "string \<Rightarrow> (int64 \<times> string) option" where
  "parseInt64 s =
     (let neg = (s \<noteq> [] \<and> hd s = CHR ''-'');
          s1 = (if neg then tl s else s);
          ds = takeWhile isDigit s1;
          r = dropWhile isDigit s1;
          k = (if neg then - int (digitsVal ds) else int (digitsVal ds))
      in if ds = [] \<or> (1 < length ds \<and> hd ds = CHR ''0'') then None
         else if r \<noteq> [] \<and> (hd r = CHR ''.'' \<or> hd r = CHR ''e'' \<or> hd r = CHR ''E'') then None
         else if k < - (2 ^ 63) \<or> 2 ^ 63 \<le> k then None
         else Some (word_of_int k, r))"

text \<open>
  Modelled from the spec: the extent of the next value of the stream.  \<open>valueRest\<close>
  is the input after the value at its head: a string, a number, a literal, or the
  text up to the bracket that closes an array or object (strings inside it are
  skipped).  What stands between the brackets is read when the value is decoded
  (\<open>parseBatch\<close> below).
\<close>

definition fracRest :: "string \<Rightarrow> string option" where
  "fracRest r =
     (case r of
        [] \<Rightarrow> Some r
      | c # t \<Rightarrow>
          if c = CHR ''.'' then
            (if takeWhile isDigit t = [] then None else Some (dropWhile isDigit t))
          else Some r)"

definition expRest :: "string \<Rightarrow> string option" where
  "expRest r =
     (case r of
        [] \<Rightarrow> Some r
      | c # t \<Rightarrow>
          if c = CHR ''e'' \<or> c = CHR ''E'' then
            (let t' = (case t of
                         [] \<Rightarrow> t
                       | d # u \<Rightarrow> if d = CHR ''+'' \<or> d = CHR ''-'' then u else t)
             in if takeWhile isDigit t' = [] then None else Some (dropWhile isDigit t'))
          else Some r)"

definition numberRest :: "string \<Rightarrow> string option" where
  "numberRest s =
     (let s1 = (case s of [] \<Rightarrow> s | c # r \<Rightarrow> if c = CHR ''-'' then r else s);
          ds = takeWhile isDigit s1
      in if ds = [] \<or> (1 < length ds \<and> hd ds = CHR ''0'') then None
         else (case fracRest (dropWhile isDigit s1) of
                 None \<Rightarrow> None
               | Some r2 \<Rightarrow> expRest r2))"

definition literalRest :: "string \<Rightarrow> string option" where
  "literalRest s =
     (if take 4 s = ''true'' \<or> take 4 s = ''null'' then Some (drop 4 s)
      else if take 5 s = ''false'' then Some (drop 5 s)
      else None)"

function closeBrackets :: "nat \<Rightarrow> string \<Rightarrow> string option" where
  "closeBrackets depth [] = None"
| "closeBrackets depth (c # r) =
     (if c = CHR 0x22 then
        (case unquote [] r of
           None \<Rightarrow> None
         | Some (v, r') \<Rightarrow> closeBrackets depth r')
      else if c = CHR ''['' \<or> c = CHR ''{'' then closeBrackets (Suc depth) r
      else if c = CHR '']'' \<or> c = CHR ''}'' then
        (if depth = 0 then Some r else closeBrackets (depth - 1) r)
      else closeBrackets depth r)"
  by pat_completeness auto
termination
proof (relation "measure (\<lambda>(depth, s). length s)")
  show "wf (measure (\<lambda>(depth, s). length s))" by simp
next
  fix depth :: nat and c :: char and r x2 v r'
  assume "unquote [] r = Some x2" "(v, r') = x2"
  then have "unquote [] r = Some (v, r')" by simp
  from unquote_length [OF this]
  show "((depth, r'), depth, c # r) \<in> measure (\<lambda>(depth, s). length s)" by simp
qed simp_all

definition valueRest :: "string \<Rightarrow> string option" where
  "valueRest s =
     (case s of
        [] \<Rightarrow> None
      | c # r \<Rightarrow>
          if c = CHR 0x22 then map_option snd (unquote [] r)
          else if c = CHR ''['' \<or> c = CHR ''{'' then closeBrackets 0 r
          else if c = CHR ''t'' \<or> c = CHR ''f'' \<or> c = CHR ''n'' then literalRest s
          else numberRest s)"

text \<open>
  Modelled from the spec: a batch is an array of objects.  Decoding is strict about
  this shape and about the type of the five known fields, a field that is missing
  keeps its zero value, and a field with another name is ignored.  The loops over
  the members of an object and over the objects of an array count down from the
  length of the text that is left, which bounds their number.
\<close>

definition parseString :: "string \<Rightarrow> (string \<times> string) option" where
  "parseString s = (case s of [] \<Rightarrow> None | c # r \<Rightarrow> if c = CHR 0x22 then unquote [] r else None)"

text \<open>
  Modelled from the spec: the value of an unknown field is skipped, and it has to
  be a JSON value.  \<open>skipValue\<close> is the input after the value at its head,
  \<open>skipElements\<close> the input after the elements of an array and its closing bracket,
  \<open>skipMembers\<close> the input after the members of an object and its closing brace.
  They count down from the length of the text, which bounds the number of values
  in it.
\<close>

fun skipValue :: "nat \<Rightarrow> string \<Rightarrow> string option"
  and skipElements :: "nat \<Rightarrow> string \<Rightarrow> string option"
  and skipMembers :: "nat \<Rightarrow> string \<Rightarrow> string option" where
  "skipValue 0 s = None"
| "skipValue (Suc n) s =
     (case s of
        [] \<Rightarrow> None
      | c # r \<Rightarrow>
          if c = CHR 0x22 then map_option snd (unquote [] r)
          else if c = CHR ''['' then
            (case skipWs r of
               [] \<Rightarrow> None
             | d # r' \<Rightarrow> if d = CHR '']'' then Some r' else skipElements n (d # r'))
          else if c = CHR ''{'' then
            (case skipWs r of
               [] \<Rightarrow> None
             | d # r' \<Rightarrow> if d = CHR ''}'' then Some r' else skipMembers n (d # r'))
          else if c = CHR ''t'' \<or> c = CHR ''f'' \<or> c = CHR ''n'' then literalRest s
          else numberRest s)"
| "skipElements 0 s = None"
| "skipElements (Suc n) s =
     (case skipValue n s of
        None \<Rightarrow> None
      | Some r \<Rightarrow>
          (case skipWs r of
             [] \<Rightarrow> None
           | d # r' \<Rightarrow>
               if d = CHR '','' then skipElements n (skipWs r')
               else if d = CHR '']'' then Some r'
               else None))"
| "skipMembers 0 s = None"
| "skipMembers (Suc n) s =
     (case parseString s of
        None \<Rightarrow> None
      | Some (key, r1) \<Rightarrow>
          (case skipWs r1 of
             [] \<Rightarrow> None
           | c # r2 \<Rightarrow>
               if c \<noteq> CHR '':'' then None
               else (case skipValue n (skipWs r2) of
                       None \<Rightarrow> None
                     | Some r3 \<Rightarrow>
                         (case skipWs r3 of
                            [] \<Rightarrow> None
                          | d # r4 \<Rightarrow>
                              if d = CHR '','' then skipMembers n (skipWs r4)
                              else if d = CHR ''}'' then Some r4
                              else None))))"

definition parseField :: "string \<Rightarrow> string \<Rightarrow> ProgressInfo \<Rightarrow> (ProgressInfo \<times> string) option" where
  "parseField key s e =
     (if key = ''reference'' then map_option (\<lambda>(v, r). (e\<lparr>Ref := v\<rparr>, r)) (parseString s)
      else if key = ''status'' then map_option (\<lambda>(v, r). (e\<lparr>Status := v\<rparr>, r)) (parseString s)
      else if key = ''offset'' then map_option (\<lambda>(v, r). (e\<lparr>Offset := v\<rparr>, r)) (parseInt64 s)
      else if key = ''total'' then map_option (\<lambda>(v, r). (e\<lparr>Total := v\<rparr>, r)) (parseInt64 s)
      else if key = ''errorMessage''
      then map_option (\<lambda>(v, r). (e\<lparr>ErrorMessage := v\<rparr>, r)) (parseString s)
      else map_option (\<lambda>r. (e, r)) (skipValue (length s) s))"

fun parseMembers :: "nat \<Rightarrow> string \<Rightarrow> ProgressInfo \<Rightarrow> (ProgressInfo \<times> string) option" where
  "parseMembers 0 s e = None"
| "parseMembers (Suc n) s e =
     (case parseString s of
        None \<Rightarrow> None
      | Some (key, r1) \<Rightarrow>
          (case skipWs r1 of
             [] \<Rightarrow> None
           | c # r2 \<Rightarrow>
               if c \<noteq> CHR '':'' then None
               else (case parseField key (skipWs r2) e of
                       None \<Rightarrow> None
                     | Some (e', r3) \<Rightarrow>
                         (case skipWs r3 of
                            [] \<Rightarrow> None
                          | d # r4 \<Rightarrow>
                              if d = CHR '','' then parseMembers n (skipWs r4) e'
                              else if d = CHR ''}'' then Some (e', r4)
                              else None))))"

definition zeroInfo :: ProgressInfo where
  "zeroInfo = \<lparr>Ref = [], Status = [], Offset = 0, Total = 0, ErrorMessage = []\<rparr>"

definition parseObject :: "string \<Rightarrow> (ProgressInfo \<times> string) option" where
  "parseObject s =
     (case s of
        [] \<Rightarrow> None
      | c # r \<Rightarrow>
          if c \<noteq> CHR ''{'' then None
          else (case skipWs r of
                  [] \<Rightarrow> None
                | d # r' \<Rightarrow>
                    if d = CHR ''}'' then Some (zeroInfo, r')
                    else parseMembers (length r) (d # r') zeroInfo))"

fun parseObjects :: "nat \<Rightarrow> string \<Rightarrow> ProgressInfo list \<Rightarrow> (ProgressInfo list \<times> string) option" where
  "parseObjects 0 s acc = None"
| "parseObjects (Suc n) s acc =
     (case parseObject s of
        None \<Rightarrow> None
      | Some (e, r) \<Rightarrow>
          (case skipWs r of
             [] \<Rightarrow> None
           | c # r' \<Rightarrow>
               if c = CHR '','' then parseObjects n (skipWs r') (acc @ [e])
               else if c = CHR '']'' then Some (acc @ [e], r')
               else None))"

definition parseBatch :: "string \<Rightarrow> ProgressInfo list option" where
  "parseBatch text =
     (case skipWs text of
        [] \<Rightarrow> None
      | c # r \<Rightarrow>
          if c \<noteq> CHR ''['' then None
          else (case (case skipWs r of
                        [] \<Rightarrow> None
                      | d # r' \<Rightarrow>
                          if d = CHR '']'' then Some ([], r')
                          else parseObjects (length r) (d # r') [])
                of None \<Rightarrow> None
                 | Some (batch, rest) \<Rightarrow> if skipWs rest = [] then Some batch else None))"

text \<open>
  Modelled from the spec: the decoder of values that \<^verbatim>\<open>renderOutput\<close> runs on.
  \<open>readValue\<close> is the extent of the next value, \<open>unmarshalBatch\<close> decodes a batch,
  and any token other than a delimiter is accepted.
\<close>

definition specJson :: json where
  "specJson =
     \<lparr>readValue = (\<lambda>b. case skipWs b of
                          [] \<Rightarrow> Inl EOF
                        | c # r \<Rightarrow>
                            (case valueRest (c # r) of
                               None \<Rightarrow> Inl (ValueError ''malformed JSON'')
                             | Some rest \<Rightarrow> Inr (length b - length rest))),
      unmarshalAny = (\<lambda>x. None),
      unmarshalString = (\<lambda>x. None),
      unmarshalBatch = (\<lambda>x. case parseBatch x of
                               None \<Rightarrow> (Some (ValueError ''not a batch''), [])
                             | Some batch \<Rightarrow> (None, batch))\<rparr>"

declare parseMembers.simps [simp del] parseObjects.simps [simp del]

declare skipValue.simps [simp del] skipElements.simps [simp del] skipMembers.simps [simp del]

declare closeBrackets.simps(2) [simp del]

section \<open>Reference functions and an example\<close>

text \<open>
  The line that the \<^verbatim>\<open>switch\<close> of \<^verbatim>\<open>display\<close> writes for one record, as a function of
  the record: the format and the operands of its \<^verbatim>\<open>Fprintf\<close>.  The lemmas below show
  that the loop writes these lines.
\<close>

definition eventLine :: "ProgressInfo \<Rightarrow> string \<times> operand list" where
  "eventLine status =
     (if Status status = ''downloading'' \<or> Status status = ''uploading'' then
        (sizedFormat,
         [Str (Ref status), Str (Status status),
          Bar (if 0 < sint (Total status)
               then fdiv (float64_of_int64 (Offset status)) (float64_of_int64 (Total status))
               else Finite 0),
          Bytes (Offset status), Bytes (Total status)])
      else if Status status = ''resolving'' \<or> Status status = ''waiting'' then
        (plainFormat, [Str (Ref status), Str (Status status), Bar (Finite 0)])
      else (plainFormat, [Str (Ref status), Str (Status status), Bar (Finite 1)]))"

text \<open>
  What \<^verbatim>\<open>renderOutput\<close> returns for a stream that opens with a brace, as a function
  of the text after the brace.
\<close>

definition afterBrace :: "string \<Rightarrow> error option" where
  "afterBrace rest =
     (case dropWhile isSpace rest of
        [] \<Rightarrow> Some (Failed ''failed to read the closing token'' EOF)
      | c # t \<Rightarrow>
          if c = CHR ''}'' then None
          else if c = CHR '']''
          then Some (Failed ''failed to read the closing token''
                       (InvalidCharacter CHR '']'' tokenObjectStart))
          else Some (Failed ''failed to decode'' NotAtBeginningOfValue))"

text \<open>
  A decoder for the examples: it knows the value texts of a table and the batch
  that each of them holds.
\<close>

definition tableJson :: "(string \<times> ProgressInfo list) list \<Rightarrow> json" where
  "tableJson table =
     \<lparr>readValue = (\<lambda>b. case find (\<lambda>(text, batch). take (length text) b = text) table of
                          None \<Rightarrow> Inl (ValueError ''no value'')
                        | Some (text, batch) \<Rightarrow> Inr (length text)),
      unmarshalAny = (\<lambda>x. None),
      unmarshalString = (\<lambda>x. None),
      unmarshalBatch = (\<lambda>x. case map_of table x of
                               None \<Rightarrow> (Some (ValueError ''no batch''), [])
                             | Some batch \<Rightarrow> (None, batch))\<rparr>"

text \<open>
  A batch whose second record carries an error message, its JSON text, and the
  state of \<^verbatim>\<open>renderOutput\<close> that has read the opening bracket of a stream with this
  batch.
\<close>

definition failingText :: string where
  \<open>failingText = ''[{"reference":"a","status":"downloading","offset":50,"total":100},{"errorMessage":"boom"},{"reference":"c"}]''\<close>

definition failingBatch :: "ProgressInfo list" where
  "failingBatch =
     [\<lparr>Ref = ''a'', Status = ''downloading'', Offset = 50, Total = 100, ErrorMessage = []\<rparr>,
      \<lparr>Ref = [], Status = [], Offset = 0, Total = 0, ErrorMessage = ''boom''\<rparr>,
      \<lparr>Ref = ''c'', Status = [], Offset = 0, Total = 0, ErrorMessage = []\<rparr>]"

definition failingState :: state where
  "failingState =
     \<lparr>dec = \<lparr>buf = failingText @ '']'', tokenState = tokenArrayStart,
              tokenStack = [tokenTopValue]\<rparr>,
      tw = [], fw = [], stdout = [], ticks = 1\<rparr>"

text \<open>A batch of two records, for the round trip through the wire format.\<close>

definition sampleBatch :: "ProgressInfo list" where
  "sampleBatch =
     [\<lparr>Ref = ''a'', Status = ''downloading'', Offset = 50, Total = 100, ErrorMessage = []\<rparr>,
      \<lparr>Ref = ''b'', Status = ''done'', Offset = 7, Total = 7, ErrorMessage = ''x<y''\<rparr>]"

section \<open>Lemmas\<close>

subsection \<open>The format loop\<close>

lemma doPrintf_verbatim: "CHR ''%'' \<notin> set s \<Longrightarrow> doPrintf s = s"
  by (induction s) auto

subsection \<open>Rounding to \<^verbatim>\<open>float64\<close>\<close>

lemma roundEven_of_int [simp]: "roundEven (of_int k) = k"
  by (simp add: roundEven_def)

lemma roundEven_error: "\<bar>of_int (roundEven y) - y\<bar> \<le> 1 / 2"
  unfolding roundEven_def Let_def by (auto; linarith)

lemma two_powi_less_imp: "(2::real) powi a < 2 powi b \<Longrightarrow> a < b"
proof (rule ccontr)
  assume less: "(2::real) powi a < 2 powi b" and "\<not> a < b"
  then have "b \<le> a" by simp
  then have "(2::real) powi b \<le> 2 powi a" by (rule power_int_increasing) simp
  with less show False by simp
qed

lemma two_powi_le_imp: "(2::real) powi a \<le> 2 powi b \<Longrightarrow> a \<le> b"
proof (rule ccontr)
  assume le: "(2::real) powi a \<le> 2 powi b" and "\<not> a \<le> b"
  then have "b < a" by simp
  then have "(2::real) powi b < 2 powi a" by (rule power_int_strict_increasing) simp
  with le show False by simp
qed

lemma expoFrom_eq:
  "2 powi e \<le> x \<Longrightarrow> x < 2 powi (e + 1) \<Longrightarrow> - 1022 \<le> e \<Longrightarrow> e \<le> int n - 1022
   \<Longrightarrow> expoFrom n x = e"
proof (induction n)
  case 0
  then show ?case by simp
next
  case (Suc n)
  show ?case
  proof (cases "2 powi (int (Suc n) - 1022) \<le> x")
    case True
    with Suc.prems(2) have "(2::real) powi (int (Suc n) - 1022) < 2 powi (e + 1)" by simp
    then have "int (Suc n) - 1022 < e + 1" by (rule two_powi_less_imp)
    with Suc.prems(4) True show ?thesis by simp
  next
    case False
    with Suc.prems(1) have "e \<noteq> int (Suc n) - 1022" by auto
    with Suc.prems(4) have "e \<le> int n - 1022" by simp
    from Suc.IH [OF Suc.prems(1,2,3) this] False show ?thesis by simp
  qed
qed

lemma expo_eq:
  "2 powi e \<le> \<bar>x\<bar> \<Longrightarrow> \<bar>x\<bar> < 2 powi (e + 1) \<Longrightarrow> - 1022 \<le> e \<Longrightarrow> e \<le> 1023 \<Longrightarrow> expo x = e"
  unfolding expo_def by (rule expoFrom_eq) simp_all

lemma expoFrom_bounds:
  "2 powi (- 1022) \<le> x \<Longrightarrow> x < 2 powi (int n - 1021)
   \<Longrightarrow> 2 powi (expoFrom n x) \<le> x \<and> x < 2 powi (expoFrom n x + 1)"
proof (induction n)
  case 0
  then show ?case by simp
next
  case (Suc n)
  show ?case
  proof (cases "2 powi (int (Suc n) - 1022) \<le> x")
    case True
    have "int (Suc n) - 1022 + 1 = int (Suc n) - 1021" by simp
    with True Suc.prems(2) show ?thesis by (simp del: of_nat_Suc)
  next
    case False
    have "int (Suc n) - 1022 = int n - 1021" by simp
    with False have "x < 2 powi (int n - 1021)" by (simp del: of_nat_Suc)
    from Suc.IH [OF Suc.prems(1) this] False show ?thesis by simp
  qed
qed

lemma expoFrom_range: "- 1022 \<le> expoFrom n x \<and> expoFrom n x \<le> int n - 1022"
  by (induction n) auto

lemma expo_bounds:
  assumes "2 powi (- 1022) \<le> \<bar>x\<bar>" and "\<bar>x\<bar> < 2 powi 1024"
  shows "2 powi (expo x) \<le> \<bar>x\<bar>" and "\<bar>x\<bar> < 2 powi (expo x + 1)"
  using expoFrom_bounds [of "\<bar>x\<bar>" 2045] assms by (simp_all add: expo_def)

lemma two_powi_pos [simp]: "0 < (2::real) powi e"
  by (simp add: zero_less_power_int)

lemma two_powi_diff: "(2::real) powi (a - b) = 2 powi a / 2 powi b"
  by (simp add: power_int_diff)

lemma round64_exact:
  assumes "x = of_int m * 2 powi (expo x - 52)" and "\<bar>x\<bar> < 2 powi 1024"
  shows "round64 x = Finite x"
proof -
  let ?u = "(2::real) powi (expo x - 52)"
  have u: "0 < ?u" by simp
  have "x / ?u = of_int m" using assms(1) u
    by (metis nonzero_mult_div_cancel_right less_irrefl)
  then have "of_int (roundEven (x / ?u)) * ?u = x" using assms(1) by simp
  then show ?thesis using assms(2) by (simp add: round64_def Let_def)
qed

lemma round64_error:
  assumes "2 powi (- 1022) \<le> \<bar>x\<bar>" and "\<bar>x\<bar> \<le> 2 powi 1000"
  shows "\<exists>r. round64 x = Finite r \<and> \<bar>r - x\<bar> \<le> \<bar>x\<bar> / 2 ^ 53"
proof -
  let ?e = "expo x"
  let ?u = "(2::real) powi (?e - 52)"
  let ?r = "of_int (roundEven (x / ?u)) * ?u"
  have lt: "\<bar>x\<bar> < 2 powi 1024"
  proof -
    have "(2::real) powi 1000 < 2 powi 1024" by (rule power_int_strict_increasing) simp_all
    with assms(2) show ?thesis by linarith
  qed
  have lo: "2 powi ?e \<le> \<bar>x\<bar>" using expo_bounds(1) [OF assms(1) lt] .
  have u: "0 < ?u" by simp
  have "\<bar>of_int (roundEven (x / ?u)) - x / ?u\<bar> \<le> 1 / 2" by (rule roundEven_error)
  then have "\<bar>of_int (roundEven (x / ?u)) - x / ?u\<bar> * ?u \<le> 1 / 2 * ?u"
    using u by (simp only: mult_le_cancel_right_pos)
  moreover have "\<bar>of_int (roundEven (x / ?u)) - x / ?u\<bar> * ?u = \<bar>?r - x\<bar>"
  proof -
    have "\<bar>of_int (roundEven (x / ?u)) - x / ?u\<bar> * ?u
          = \<bar>(of_int (roundEven (x / ?u)) - x / ?u) * ?u\<bar>"
      using u by (simp add: abs_mult)
    also have "(of_int (roundEven (x / ?u)) - x / ?u) * ?u = ?r - x"
      using u by (simp add: left_diff_distrib)
    finally show ?thesis .
  qed
  ultimately have d: "\<bar>?r - x\<bar> \<le> ?u / 2" by simp
  have "?u / 2 = 2 powi ?e / 2 ^ 53"
    by (simp add: two_powi_diff)
  with lo have h: "?u / 2 \<le> \<bar>x\<bar> / 2 ^ 53"
    by (simp add: divide_right_mono)
  with d have err: "\<bar>?r - x\<bar> \<le> \<bar>x\<bar> / 2 ^ 53" by linarith
  have xpos: "0 < \<bar>x\<bar>" using assms(1) two_powi_pos [of "- 1022"] by linarith
  have small: "\<bar>x\<bar> / 2 ^ 53 < \<bar>x\<bar>" using xpos by simp
  have rn: "?r \<noteq> 0" using err small by auto
  have "\<bar>?r\<bar> \<le> \<bar>x\<bar> + \<bar>x\<bar> / 2 ^ 53" using err by linarith
  also have "\<dots> < 2 * \<bar>x\<bar>" using small by simp
  also have "\<dots> \<le> 2 * 2 powi 1000" using assms(2) by simp
  also have "\<dots> = 2 powi 1001" by (simp add: power_int_add [of 2 1000 1, simplified])
  also have "\<dots> < 2 powi 1024" by (rule power_int_strict_increasing) simp_all
  finally have "\<not> 2 powi 1024 \<le> \<bar>?r\<bar>" by simp
  with rn have "round64 x = Finite ?r" by (simp add: round64_def Let_def)
  with err show ?thesis by blast
qed

lemma abs_triangle_ineq_help1: "\<bar>u\<bar> \<le> \<bar>v\<bar> + \<bar>u - v\<bar>" for u v :: real
  by linarith

lemma abs_triangle_ineq_help2: "\<bar>q - v\<bar> \<le> \<bar>q - u\<bar> + \<bar>u - v\<bar>" for q u v :: real
  by linarith

lemma rounding_sum:
  fixes A R D E Q :: real
  assumes "0 \<le> R" and "D \<le> 5 / 2 * R / 2 ^ 53" and "A \<le> R + D" and "E \<le> A / 2 ^ 53"
    and "Q \<le> E + D"
  shows "Q \<le> R / 2 ^ 51"
  using assms by simp

lemma quotient_error:
  fixes a b x y q :: real
  assumes y: "0 < y"
    and a: "\<bar>a - x\<bar> \<le> \<bar>x\<bar> / 2 ^ 53"
    and b: "\<bar>b - y\<bar> \<le> y / 2 ^ 53"
    and q: "\<bar>q - a / b\<bar> \<le> \<bar>a / b\<bar> / 2 ^ 53"
  shows "\<bar>q - x / y\<bar> \<le> \<bar>x / y\<bar> / 2 ^ 51"
proof -
  have "y / 2 ^ 53 \<le> y / 5" using y by (intro divide_left_mono) simp_all
  with b have b1: "4 * y \<le> 5 * b" by linarith
  with y have bpos: "0 < b" by linarith
  have "a * y - x * b = (a - x) * y - x * (b - y)" by (simp add: algebra_simps)
  then have "\<bar>a * y - x * b\<bar> \<le> \<bar>(a - x) * y\<bar> + \<bar>x * (b - y)\<bar>"
    by (simp only: abs_triangle_ineq4)
  also have "\<dots> = \<bar>a - x\<bar> * y + \<bar>x\<bar> * \<bar>b - y\<bar>"
    using y by (simp add: abs_mult)
  also have "\<dots> \<le> (\<bar>x\<bar> / 2 ^ 53) * y + \<bar>x\<bar> * (y / 2 ^ 53)"
    using a b y by (intro add_mono mult_right_mono mult_left_mono) simp_all
  also have "\<dots> = 2 * (\<bar>x\<bar> * y) / 2 ^ 53" by simp
  also have "\<dots> \<le> (5 / 2) * (\<bar>x\<bar> * b) / 2 ^ 53"
  proof -
    have "\<bar>x\<bar> * (4 * y) \<le> \<bar>x\<bar> * (5 * b)" using b1 by (intro mult_left_mono) simp_all
    then have "4 * (\<bar>x\<bar> * y) \<le> 5 * (\<bar>x\<bar> * b)" by (simp only: mult.left_commute)
    then have "2 * (\<bar>x\<bar> * y) \<le> (5 / 2) * (\<bar>x\<bar> * b)" by linarith
    then show ?thesis by (rule divide_right_mono) simp
  qed
  finally have n: "\<bar>a * y - x * b\<bar> \<le> (5 / 2) * (\<bar>x\<bar> * b) / 2 ^ 53" .
  have "a / b - x / y = (a * y - x * b) / (b * y)"
    using bpos y by (simp add: field_simps)
  then have "\<bar>a / b - x / y\<bar> = \<bar>a * y - x * b\<bar> / (b * y)"
    using bpos y by (simp add: abs_mult)
  also have "\<dots> \<le> ((5 / 2) * (\<bar>x\<bar> * b) / 2 ^ 53) / (b * y)"
    using n bpos y by (intro divide_right_mono) simp_all
  also have "\<dots> = (5 / 2) * \<bar>x / y\<bar> / 2 ^ 53"
    using bpos y by (simp add: field_simps)
  finally have d: "\<bar>a / b - x / y\<bar> \<le> (5 / 2) * \<bar>x / y\<bar> / 2 ^ 53" .
  have t1: "\<bar>a / b\<bar> \<le> \<bar>x / y\<bar> + \<bar>a / b - x / y\<bar>" by (rule abs_triangle_ineq_help1)
  have t2: "\<bar>q - x / y\<bar> \<le> \<bar>q - a / b\<bar> + \<bar>a / b - x / y\<bar>" by (rule abs_triangle_ineq_help2)
  show ?thesis
    by (rule rounding_sum [OF _ d t1 q t2]) simp
qed

lemma expoFrom_zero: "expoFrom n 0 = - 1022"
  by (induction n) (simp_all add: not_le)

lemma round64_zero: "round64 0 = Finite 0"
  by (simp add: round64_def Let_def roundEven_def)

lemma expo_int:
  fixes k :: int
  assumes "k \<noteq> 0" and "\<bar>k\<bar> \<le> 2 ^ 63"
  shows "2 powi (expo (of_int k)) \<le> \<bar>real_of_int k\<bar>"
    and "\<bar>real_of_int k\<bar> < 2 powi (expo (of_int k) + 1)"
    and "0 \<le> expo (real_of_int k)"
proof -
  let ?x = "real_of_int k"
  have one: "1 \<le> \<bar>?x\<bar>" using assms(1) by (simp flip: of_int_abs)
  have "(2::real) powi (- 1022) \<le> 2 powi 0" by (rule power_int_increasing) simp_all
  with one have lo: "2 powi (- 1022) \<le> \<bar>?x\<bar>" by simp
  have "\<bar>?x\<bar> \<le> 2 ^ 63" using assms(2) by (simp flip: of_int_abs add: of_int_le_iff [of _ "2 ^ 63", simplified])
  moreover have "(2::real) ^ 63 < 2 powi 1024" by simp
  ultimately have hi: "\<bar>?x\<bar> < 2 powi 1024" by linarith
  show 1: "2 powi (expo ?x) \<le> \<bar>?x\<bar>" and 2: "\<bar>?x\<bar> < 2 powi (expo ?x + 1)"
    using expo_bounds [OF lo hi] .
  have "(2::real) powi 0 < 2 powi (expo ?x + 1)" using one 2 by simp
  then have "0 < expo ?x + 1" by (rule two_powi_less_imp)
  then show "0 \<le> expo ?x" by simp
qed

lemma round64_int_exact:
  fixes k :: int
  assumes "\<bar>k\<bar> \<le> 2 ^ 53"
  shows "round64 (of_int k) = Finite (of_int k)"
proof (cases "k = 0")
  case True
  then show ?thesis by (simp add: round64_zero)
next
  case False
  let ?x = "real_of_int k"
  let ?e = "expo ?x"
  have k63: "\<bar>k\<bar> \<le> 2 ^ 63" using assms by simp
  note b = expo_int [OF False k63]
  have x53: "\<bar>?x\<bar> \<le> 2 powi 53" using assms
    by (simp flip: of_int_abs add: of_int_le_iff [of _ "2 ^ 53", simplified])
  with b(1) have "(2::real) powi ?e \<le> 2 powi 53" by linarith
  then have e53: "?e \<le> 53" by (rule two_powi_le_imp)
  have hi: "\<bar>?x\<bar> < 2 powi 1024"
  proof -
    have "(2::real) powi 53 < 2 powi 1024" by (rule power_int_strict_increasing) simp_all
    with x53 show ?thesis by linarith
  qed
  have "\<exists>m. ?x = of_int m * 2 powi (?e - 52)"
  proof (cases "?e \<le> 52")
    case True
    then have "(2::real) powi (?e - 52) = 1 / 2 ^ nat (52 - ?e)"
      by (simp add: power_int_def field_simps)
    then have "?x = of_int (k * 2 ^ nat (52 - ?e)) * 2 powi (?e - 52)" by simp
    then show ?thesis by blast
  next
    case False
    with e53 have e: "?e = 53" by simp
    with b(1) x53 have "\<bar>?x\<bar> = 2 ^ 53" by simp
    then have "\<bar>k\<bar> = 2 ^ 53"
      by (simp flip: of_int_abs add: of_int_eq_iff [of _ "2 ^ 53", simplified])
    then have "k = 9007199254740992 \<or> k = - 9007199254740992" by (simp add: abs_if split: if_splits)
    then have "k = 2 * (k div 2)" by (elim disjE) simp_all
    then have "?x = of_int (k div 2) * 2" by (metis of_int_mult of_int_numeral mult.commute)
    then have "?x = of_int (k div 2) * 2 powi (?e - 52)" using e by simp
    then show ?thesis by blast
  qed
  then obtain m where "?x = of_int m * 2 powi (?e - 52)" ..
  then show ?thesis using hi by (rule round64_exact)
qed

lemma sint64_bound: "\<bar>sint (n :: int64)\<bar> \<le> 2 ^ 63"
  using sint_ge [of n] sint_lt [of n] by simp

lemma float64_of_int64_exact:
  assumes "\<bar>sint n\<bar> \<le> 2 ^ 53"
  shows "float64_of_int64 n = Finite (real_of_int (sint n))"
  unfolding float64_of_int64_def using assms by (rule round64_int_exact)

lemma round64_int_error:
  fixes k :: int
  assumes "\<bar>k\<bar> \<le> 2 ^ 63"
  shows "\<exists>r. round64 (of_int k) = Finite r
             \<and> \<bar>r - real_of_int k\<bar> \<le> \<bar>real_of_int k\<bar> / 2 ^ 53"
proof (cases "k = 0")
  case True
  then show ?thesis by (simp add: round64_zero)
next
  case False
  let ?x = "real_of_int k"
  have one: "1 \<le> \<bar>?x\<bar>" using False by (simp flip: of_int_abs)
  have "(2::real) powi (- 1022) \<le> 2 powi 0" by (rule power_int_increasing) simp_all
  with one have lo: "2 powi (- 1022) \<le> \<bar>?x\<bar>" by simp
  have "\<bar>?x\<bar> \<le> 2 ^ 63" using assms
    by (simp flip: of_int_abs add: of_int_le_iff [of _ "2 ^ 63", simplified])
  moreover have "(2::real) ^ 63 \<le> 2 powi 1000" by simp
  ultimately have hi: "\<bar>?x\<bar> \<le> 2 powi 1000" by linarith
  from round64_error [OF lo hi] show ?thesis .
qed

lemma float64_of_int64_error:
  "\<exists>r. float64_of_int64 n = Finite r
       \<and> \<bar>r - real_of_int (sint n)\<bar> \<le> \<bar>real_of_int (sint n)\<bar> / 2 ^ 53"
  unfolding float64_of_int64_def using sint64_bound by (rule round64_int_error)

lemma quotient_round64_error:
  fixes k m :: int
  assumes "0 < m" and "\<bar>k\<bar> \<le> 2 ^ 63" and "\<bar>m\<bar> \<le> 2 ^ 63"
  shows "\<exists>q. fdiv (round64 (of_int k)) (round64 (of_int m)) = Finite q
             \<and> \<bar>q - real_of_int k / real_of_int m\<bar>
               \<le> \<bar>real_of_int k / real_of_int m\<bar> / 2 ^ 51"
proof -
  let ?x = "real_of_int k" and ?y = "real_of_int m"
  from round64_int_error [OF assms(2)] obtain a where
    a: "round64 ?x = Finite a" and ea: "\<bar>a - ?x\<bar> \<le> \<bar>?x\<bar> / 2 ^ 53" by blast
  from round64_int_error [OF assms(3)] obtain b where
    b: "round64 ?y = Finite b" and eb0: "\<bar>b - ?y\<bar> \<le> \<bar>?y\<bar> / 2 ^ 53" by blast
  have y1: "1 \<le> ?y" using assms(1) by simp
  then have y: "0 < ?y" by linarith
  have eb: "\<bar>b - ?y\<bar> \<le> ?y / 2 ^ 53" using eb0 y by simp
  have "?y / 2 ^ 53 \<le> ?y / 5" using y by (intro divide_left_mono) simp_all
  with eb have b1: "4 * ?y \<le> 5 * b" and b2: "b \<le> 2 * ?y" by linarith+
  from b1 y1 have b3: "4 / 5 \<le> b" by linarith
  then have bpos: "0 < b" by linarith
  have "\<bar>?y\<bar> \<le> 2 ^ 63" using assms(3)
    by (simp flip: of_int_abs add: of_int_le_iff [of _ "2 ^ 63", simplified])
  with b2 y have b4: "b \<le> 2 ^ 64" by simp
  show ?thesis
  proof (cases "k = 0")
    case True
    then have "a = 0" using ea by simp
    then have "fdiv (round64 ?x) (round64 ?y) = Finite 0"
      using a b bpos by (simp add: fdiv_def)
    then show ?thesis using True by simp
  next
    case False
    then have x1: "1 \<le> \<bar>?x\<bar>" by (simp flip: of_int_abs)
    have "\<bar>?x\<bar> / 2 ^ 53 \<le> \<bar>?x\<bar> / 2" by (intro divide_left_mono) simp_all
    with ea have a1: "\<bar>?x\<bar> / 2 \<le> \<bar>a\<bar>" and a2: "\<bar>a\<bar> \<le> 2 * \<bar>?x\<bar>" by linarith+
    from a1 x1 have a3: "1 / 2 \<le> \<bar>a\<bar>" by linarith
    then have an: "a \<noteq> 0" by auto
    have "\<bar>?x\<bar> \<le> 2 ^ 63" using assms(2)
      by (simp flip: of_int_abs add: of_int_le_iff [of _ "2 ^ 63", simplified])
    with a2 have a4: "\<bar>a\<bar> \<le> 2 ^ 64" by simp
    have div: "fdiv (round64 ?x) (round64 ?y) = round64 (a / b)"
      using a b an bpos by (simp add: fdiv_def)
    have ab: "\<bar>a / b\<bar> = \<bar>a\<bar> / b" using bpos by simp
    have lo: "2 powi (- 1022) \<le> \<bar>a / b\<bar>"
    proof -
      have "(2::real) powi (- 1022) \<le> 2 powi (- 65)" by (rule power_int_increasing) simp_all
      also have "\<dots> = 1 / 2 ^ 65" by (simp add: power_int_minus_divide)
      also have "\<dots> \<le> \<bar>a\<bar> / b"
      proof -
        have "b / 2 ^ 65 \<le> 2 ^ 64 / 2 ^ 65" using b4 by (rule divide_right_mono) simp
        also have "\<dots> = 1 / (2::real)" by simp
        finally have "1 / 2 ^ 65 * b \<le> \<bar>a\<bar>" using a3 by simp
        then show ?thesis using bpos by (simp only: pos_le_divide_eq)
      qed
      finally show ?thesis by (simp only: ab)
    qed
    have hi: "\<bar>a / b\<bar> \<le> 2 powi 1000"
    proof -
      have "\<bar>a\<bar> \<le> 2 ^ 65 * b" using a4 b3 by simp
      then have "\<bar>a\<bar> / b \<le> 2 ^ 65" using bpos by (simp only: pos_divide_le_eq)
      also have "(2::real) ^ 65 \<le> 2 powi 1000" by simp
      finally show ?thesis by (simp only: ab)
    qed
    from round64_error [OF lo hi] obtain q where
      q: "round64 (a / b) = Finite q" and eq: "\<bar>q - a / b\<bar> \<le> \<bar>a / b\<bar> / 2 ^ 53" by blast
    from quotient_error [OF y ea eb eq] q div show ?thesis by simp
  qed
qed

lemma bar_error:
  assumes "0 < sint t"
  shows "\<exists>q. fdiv (float64_of_int64 n) (float64_of_int64 t) = Finite q
             \<and> \<bar>q - real_of_int (sint n) / real_of_int (sint t)\<bar>
               \<le> \<bar>real_of_int (sint n) / real_of_int (sint t)\<bar> / 2 ^ 51"
  unfolding float64_of_int64_def
  using assms sint64_bound sint64_bound by (rule quotient_round64_error)

lemma quotient_round64_exact:
  fixes k m :: int
  assumes "0 < m" and "\<bar>k\<bar> \<le> 2 ^ 53" and "m \<le> 2 ^ 53"
  shows "fdiv (round64 (of_int k)) (round64 (of_int m))
         = round64 (real_of_int k / real_of_int m)"
proof -
  have m: "\<bar>m\<bar> \<le> 2 ^ 53" using assms(1,3) by simp
  show ?thesis
    using assms(1) round64_int_exact [OF assms(2)] round64_int_exact [OF m]
    by (cases "k = 0") (simp_all add: fdiv_def round64_zero)
qed

lemma bar_exact:
  assumes "0 < sint t" and "\<bar>sint n\<bar> \<le> 2 ^ 53" and "sint t \<le> 2 ^ 53"
  shows "fdiv (float64_of_int64 n) (float64_of_int64 t)
         = round64 (real_of_int (sint n) / real_of_int (sint t))"
  unfolding float64_of_int64_def using assms by (rule quotient_round64_exact)

lemma round64_half: "round64 (1 / 2) = Finite (1 / 2)"
proof -
  have e: "expo (1 / 2) = - 1" by (rule expo_eq) simp_all
  have "(1 / 2 :: real) = of_int (2 ^ 52) * 2 powi (expo (1 / 2) - 52)"
    by (simp add: e)
  then show ?thesis by (rule round64_exact) simp
qed

lemma round64_one: "round64 1 = Finite 1"
  using round64_int_exact [of 1] by simp

lemma round64_third: "round64 (1 / 3) = Finite (6004799503160661 / 18014398509481984)"
proof -
  have e: "expo (1 / 3) = - 2" by (rule expo_eq) simp_all
  show ?thesis
    by (simp add: round64_def Let_def e roundEven_def)
qed

lemma bar_half: "fdiv (float64_of_int64 50) (float64_of_int64 100) = Finite (1 / 2)"
  using bar_exact [of 100 50] by (simp add: round64_half)

lemma float64_of_int64_rounded:
  "float64_of_int64 4611686018427387903 = Finite 4611686018427387904"
proof -
  have e: "expo 4611686018427387903 = 61" by (rule expo_eq) simp_all
  show ?thesis
    by (simp add: float64_of_int64_def round64_def Let_def e roundEven_def)
qed

lemma bar_rounded_to_one:
  "fdiv (float64_of_int64 4611686018427387903) (float64_of_int64 4611686018427387904) = Finite 1"
proof -
  have e: "expo 4611686018427387904 = 62" by (rule expo_eq) simp_all
  have "float64_of_int64 4611686018427387904 = Finite 4611686018427387904"
    by (simp add: float64_of_int64_def round64_def Let_def e roundEven_def)
  then show ?thesis
    by (simp add: float64_of_int64_rounded fdiv_def round64_one)
qed

text \<open>
  The quotient where the total is 0, which the guard \<^verbatim>\<open>status.Total > 0.0\<close> of
  \<^verbatim>\<open>display\<close> keeps from the bar.
\<close>

lemma bar_unguarded:
  "fdiv (float64_of_int64 50) (float64_of_int64 0) = PosInf"
  "fdiv (float64_of_int64 (- 50)) (float64_of_int64 0) = NegInf"
  "fdiv (float64_of_int64 0) (float64_of_int64 0) = NaN"
  using float64_of_int64_exact [of 50] float64_of_int64_exact [of "- 50"]
    float64_of_int64_exact [of 0]
  by (simp_all add: fdiv_def)

subsection \<open>The loop of \<^verbatim>\<open>display\<close>\<close>

lemma display_range_step:
  "ErrorMessage s = [] \<Longrightarrow>
   display_range w tot (s # rest) = display_range (w @ [eventLine s]) (tot + Offset s) rest"
  by (simp add: eventLine_def Fprintf_def Let_def)

lemma display_range_clean:
  "\<forall>s \<in> set statuses. ErrorMessage s = [] \<Longrightarrow>
   display_range w tot statuses
   = (None, w @ map eventLine statuses, tot + sum_list (map Offset statuses))"
proof (induction statuses arbitrary: w tot)
  case Nil
  show ?case by simp
next
  case (Cons s rest)
  then have "ErrorMessage s = []" and "\<forall>x \<in> set rest. ErrorMessage x = []" by simp_all
  then show ?case
    using Cons.IH [of "w @ [eventLine s]" "tot + Offset s"]
    by (simp only: display_range_step) (simp add: add.assoc)
qed

lemma display_range_abort:
  assumes "\<forall>s \<in> set pre. ErrorMessage s = []" and "ErrorMessage e \<noteq> []"
  shows "display_range w tot (pre @ e # post)
         = (Some (Errorf (ErrorMessage e)), w @ map eventLine pre,
            tot + sum_list (map Offset pre))"
  using assms
proof (induction pre arbitrary: w tot)
  case Nil
  then show ?case by simp
next
  case (Cons s rest)
  then have "ErrorMessage s = []" and "\<forall>x \<in> set rest. ErrorMessage x = []" by simp_all
  then show ?case
    using Cons.IH [of "w @ [eventLine s]" "tot + Offset s"] Cons.prems(2)
    by (simp only: append_Cons display_range_step) (simp add: add.assoc)
qed

lemma display_clean:
  assumes "\<forall>s \<in> set statuses. ErrorMessage s = []"
  shows "display w statuses start now1 now2
         = (None, w @ map eventLine statuses
                  @ [(summaryFormat,
                      [Seconds (now1 - start), Bytes (sum_list (map Offset statuses)),
                       BytesPerSecond (sum_list (map Offset statuses)) (now2 - start)])])"
  by (simp add: display_def display_range_clean [OF assms] Fprintf_def)

lemma display_abort:
  assumes "\<forall>s \<in> set pre. ErrorMessage s = []" and "ErrorMessage e \<noteq> []"
  shows "display w (pre @ e # post) start now1 now2
         = (Some (Errorf (ErrorMessage e)), w @ map eventLine pre)"
  by (simp add: display_def display_range_abort [OF assms])

text \<open>Every batch splits at its first record with an error message, if it has one.\<close>

lemma first_error_split:
  assumes "\<exists>s \<in> set statuses. ErrorMessage s \<noteq> []"
  shows "\<exists>pre e post. statuses = pre @ e # post \<and> (\<forall>s \<in> set pre. ErrorMessage s = [])
                       \<and> ErrorMessage e \<noteq> []"
proof -
  from assms obtain pre e post where
    "statuses = pre @ e # post" "ErrorMessage e \<noteq> []" "\<forall>s \<in> set pre. \<not> ErrorMessage s \<noteq> []"
    using split_list_first_prop [of statuses "\<lambda>s. ErrorMessage s \<noteq> []"] by blast
  then show ?thesis by auto
qed

lemma display_writer_line:
  assumes "\<forall>s \<in> set pre. ErrorMessage s = []" and "ErrorMessage e = []"
  shows "snd (display w (pre @ e # post) start now1 now2) ! (length w + length pre) = eventLine e"
proof (cases "\<exists>s \<in> set post. ErrorMessage s \<noteq> []")
  case True
  from first_error_split [OF this] obtain p2 f q where
    post: "post = p2 @ f # q" and p2: "\<forall>s \<in> set p2. ErrorMessage s = []"
    and f: "ErrorMessage f \<noteq> []" by blast
  have clean: "\<forall>s \<in> set (pre @ e # p2). ErrorMessage s = []"
    using assms p2 by auto
  have "display w ((pre @ e # p2) @ f # q) start now1 now2
        = (Some (Errorf (ErrorMessage f)), w @ map eventLine (pre @ e # p2))"
    by (rule display_abort [OF clean f])
  then have "snd (display w (pre @ e # post) start now1 now2)
             = (w @ map eventLine pre) @ eventLine e # map eventLine p2"
    by (simp add: post)
  then show ?thesis
    by (simp only: nth_append_length [of "w @ map eventLine pre", simplified])
       (metis length_append length_map nth_append_length)
next
  case False
  then have clean: "\<forall>s \<in> set (pre @ e # post). ErrorMessage s = []"
    using assms by auto
  have "snd (display w (pre @ e # post) start now1 now2)
        = (w @ map eventLine pre) @ eventLine e # (map eventLine post @
            [(summaryFormat,
              [Seconds (now1 - start), Bytes (sum_list (map Offset (pre @ e # post))),
               BytesPerSecond (sum_list (map Offset (pre @ e # post))) (now2 - start)])])"
    by (simp add: display_clean [OF clean])
  then show ?thesis
    by (metis length_append length_map nth_append_length)
qed

lemma sint_sum_list: "word_of_int (sum_list (map sint xs)) = (sum_list xs :: int64)"
  by (induction xs) simp_all

subsection \<open>The decoder's tokens\<close>

lemma peek_EOF: "dropWhile isSpace (buf d) = [] \<Longrightarrow> peek d = (Inl EOF, d)"
  by (simp only: peek_def list.case)

lemma peek_char:
  "dropWhile isSpace (buf d) = c # cs \<Longrightarrow> peek d = (Inr c, d\<lparr>buf := c # cs\<rparr>)"
  by (simp only: peek_def list.case)

lemma peek_skip:
  assumes "\<forall>c \<in> set ws. isSpace c" and "\<not> isSpace c"
  shows "peek (d\<lparr>buf := ws @ c # r\<rparr>) = (Inr c, d\<lparr>buf := c # r\<rparr>)"
proof -
  have "dropWhile isSpace (ws @ c # r) = c # r"
    using assms by (simp add: dropWhile_append3)
  then show ?thesis by (simp add: peek_def)
qed

lemma dropWhile_head: "dropWhile P xs = c # t \<Longrightarrow> \<not> P c"
  by (metis hd_dropWhile list.distinct(1) list.sel(1))

lemma Token_open_bracket:
  assumes "peek d = (Inr CHR ''['', d')" and "tokenValueAllowed d'"
  shows "Token lib d = pushState d' CHR ''['' tokenArrayStart"
  using assms by (subst Token.simps) simp

lemma Token_open_brace:
  assumes "peek d = (Inr CHR ''{'', d')" and "tokenValueAllowed d'"
  shows "Token lib d = pushState d' CHR ''{'' tokenObjectStart"
  using assms by (subst Token.simps) simp

lemma Token_close_bracket:
  assumes "peek d = (Inr CHR '']'', d')"
  shows "Token lib d
         = (if tokenState d' \<noteq> tokenArrayStart \<and> tokenState d' \<noteq> tokenArrayComma
            then tokenError d' CHR '']'' else popState d' CHR '']'')"
  using assms by (subst Token.simps) simp

lemma Token_close_brace:
  assumes "peek d = (Inr CHR ''}'', d')"
  shows "Token lib d
         = (if tokenState d' \<noteq> tokenObjectStart \<and> tokenState d' \<noteq> tokenObjectComma
            then tokenError d' CHR ''}'' else popState d' CHR ''}'')"
  using assms by (subst Token.simps) simp

lemma Token_EOF:
  assumes "peek d = (Inl err, d')"
  shows "Token lib d = (Inl err, d')"
  using assms by (subst Token.simps) simp

subsection \<open>A round of the loop that fails\<close>

lemma renderBatch_abort:
  assumes "Decode lib (unmarshalBatch lib) [] (dec st) = (None, pre @ e # post, d)"
    and "\<forall>s \<in> set pre. ErrorMessage s = []" and "ErrorMessage e \<noteq> []"
  shows "renderBatch lib clock start st
         = (Some (Errorf (ErrorMessage e)), st\<lparr>dec := d, tw := map eventLine pre\<rparr>)"
  using assms(1) display_abort [OF assms(2,3), of "[]" post]
  by (simp add: renderBatch_def)

lemma renderLoop_abort:
  assumes "More (dec st) = (True, d0)"
    and "Decode lib (unmarshalBatch lib) [] d0 = (None, pre @ e # post, d)"
    and "\<forall>s \<in> set pre. ErrorMessage s = []" and "ErrorMessage e \<noteq> []"
  shows "renderLoop lib clock start st
         = Some (Some (Errorf (ErrorMessage e)), st\<lparr>dec := d, tw := map eventLine pre\<rparr>)"
proof -
  have "renderBatch lib clock start (st\<lparr>dec := d0\<rparr>)
        = (Some (Errorf (ErrorMessage e)), st\<lparr>dec := d, tw := map eventLine pre\<rparr>)"
    using renderBatch_abort [of lib "st\<lparr>dec := d0\<rparr>" pre e post d clock start] assms(2-4)
    by simp
  then show ?thesis
    using assms(1) by (subst renderLoop.simps) simp
qed

lemma failing_More: "More (dec failingState) = (True, dec failingState)"
  by (simp add: More_def peek_def failingState_def failingText_def isSpace_def)

lemma failing_Decode:
  "Decode (tableJson [(failingText, failingBatch)])
     (unmarshalBatch (tableJson [(failingText, failingBatch)])) [] (dec failingState)
   = (None, failingBatch,
      \<lparr>buf = '']'', tokenState = tokenArrayComma, tokenStack = [tokenTopValue]\<rparr>)"
  by (simp add: Decode_def tokenPrepareForDecode_def tokenValueAllowed_def tokenValueEnd_def
      tableJson_def failingState_def)

subsection \<open>The opening token\<close>

lemma renderOutput_opening_error:
  assumes "Token lib (NewDecoder body) = (Inl err, d)"
  shows "renderOutput lib clock body
         = Some (Some (Failed ''failed to read the opening token'' err),
                 \<lparr>dec = d, tw = [], fw = [], stdout = [], ticks = 1\<rparr>)"
  using assms by (simp add: renderOutput_def Let_def)

lemma Token_stray:
  assumes "peek d = (Inr c, d')" and "c = CHR '':'' \<or> c = CHR '',''"
    and "tokenState d' = tokenTopValue"
  shows "Token lib d = tokenError d' c"
  using assms by (subst Token.simps) auto

lemma renderOutput_no_token:
  assumes "dropWhile isSpace body = []"
  shows "renderOutput lib clock body
         = Some (Some (Failed ''failed to read the opening token'' EOF),
                 \<lparr>dec = NewDecoder body, tw = [], fw = [], stdout = [], ticks = 1\<rparr>)"
proof -
  have "dropWhile isSpace (buf (NewDecoder body)) = []"
    using assms by (simp add: NewDecoder_def)
  from Token_EOF [OF peek_EOF [OF this]]
  have "Token lib (NewDecoder body) = (Inl EOF, NewDecoder body)" .
  then show ?thesis by (rule renderOutput_opening_error)
qed

lemma renderOutput_bad_token:
  assumes "dropWhile isSpace body = c # t"
    and "c = CHR '']'' \<or> c = CHR ''}'' \<or> c = CHR '':'' \<or> c = CHR '',''"
  shows "renderOutput lib clock body
         = Some (Some (Failed ''failed to read the opening token''
                         (InvalidCharacter c tokenTopValue)),
                 \<lparr>dec = \<lparr>buf = c # t, tokenState = tokenTopValue, tokenStack = []\<rparr>,
                    tw = [], fw = [], stdout = [], ticks = 1\<rparr>)"
proof -
  let ?d = "\<lparr>buf = c # t, tokenState = tokenTopValue, tokenStack = []\<rparr>"
  have "dropWhile isSpace (buf (NewDecoder body)) = c # t"
    using assms(1) by (simp add: NewDecoder_def)
  from peek_char [OF this] have p: "peek (NewDecoder body) = (Inr c, ?d)"
    by (simp add: NewDecoder_def)
  have "Token lib (NewDecoder body) = (Inl (InvalidCharacter c tokenTopValue), ?d)"
    using assms(2)
  proof (elim disjE)
    assume "c = CHR '']''"
    with p show ?thesis by (simp add: Token_close_bracket tokenError_def)
  next
    assume "c = CHR ''}''"
    with p show ?thesis by (simp add: Token_close_brace tokenError_def)
  next
    assume "c = CHR '':''"
    with Token_stray [OF p, of lib] show ?thesis by (simp add: tokenError_def)
  next
    assume "c = CHR '',''"
    with Token_stray [OF p, of lib] show ?thesis by (simp add: tokenError_def)
  qed
  then show ?thesis by (rule renderOutput_opening_error)
qed

lemma renderOutput_opening_brace:
  assumes "dropWhile isSpace body = CHR ''{'' # rest"
  shows "\<exists>st. renderOutput lib clock body = Some (afterBrace rest, st)
              \<and> tw st = [] \<and> fw st = [] \<and> stdout st = [] \<and> ticks st = 1"
proof -
  let ?d1 = "\<lparr>buf = rest, tokenState = tokenObjectStart, tokenStack = [tokenTopValue]\<rparr>"
  let ?st = "\<lparr>dec = NewDecoder body, tw = [], fw = [], stdout = [], ticks = 1\<rparr>"
  have "dropWhile isSpace (buf (NewDecoder body)) = CHR ''{'' # rest"
    using assms by (simp add: NewDecoder_def)
  from peek_char [OF this]
  have p0: "peek (NewDecoder body)
            = (Inr CHR ''{'', \<lparr>buf = CHR ''{'' # rest, tokenState = tokenTopValue,
                               tokenStack = []\<rparr>)"
    by (simp add: NewDecoder_def)
  have t0: "Token lib (NewDecoder body) = (Inr (Delim CHR ''{''), ?d1)"
    by (simp add: Token_open_brace [OF p0] tokenValueAllowed_def pushState_def)
  show ?thesis
  proof (cases "dropWhile isSpace rest")
    case Nil
    then have "dropWhile isSpace (buf ?d1) = []" by simp
    then have p: "peek ?d1 = (Inl EOF, ?d1)" by (rule peek_EOF)
    have l: "renderLoop lib clock (clock 0) (?st\<lparr>dec := ?d1\<rparr>) = Some (None, ?st\<lparr>dec := ?d1\<rparr>)"
      by (subst renderLoop.simps) (simp add: More_def p)
    have "renderOutput lib clock body
          = Some (Some (Failed ''failed to read the closing token'' EOF), ?st\<lparr>dec := ?d1\<rparr>)"
      using t0 l Token_EOF [OF p, of lib] by (simp add: renderOutput_def Let_def)
    moreover have "afterBrace rest = Some (Failed ''failed to read the closing token'' EOF)"
      by (simp only: afterBrace_def Nil list.case)
    ultimately show ?thesis by simp
  next
    case (Cons c t)
    have ab: "afterBrace rest
              = (if c = CHR ''}'' then None
                 else if c = CHR '']''
                 then Some (Failed ''failed to read the closing token''
                              (InvalidCharacter CHR '']'' tokenObjectStart))
                 else Some (Failed ''failed to decode'' NotAtBeginningOfValue))"
      by (simp only: afterBrace_def Cons list.case)
    let ?d2 = "\<lparr>buf = c # t, tokenState = tokenObjectStart, tokenStack = [tokenTopValue]\<rparr>"
    have nsp: "\<not> isSpace c" using Cons by (rule dropWhile_head)
    have "dropWhile isSpace (buf ?d1) = c # t" using Cons by simp
    from peek_char [OF this] have p: "peek ?d1 = (Inr c, ?d2)" by simp
    have p': "peek ?d2 = (Inr c, ?d2)" using nsp by (simp add: peek_def)
    show ?thesis
    proof (cases "c = CHR ''}'' \<or> c = CHR '']''")
      case True
      then have l: "renderLoop lib clock (clock 0) (?st\<lparr>dec := ?d1\<rparr>)
                    = Some (None, ?st\<lparr>dec := ?d2\<rparr>)"
        by (subst renderLoop.simps) (auto simp: More_def p)
      show ?thesis
      proof (cases "c = CHR ''}''")
        case True
        with p' have "Token lib ?d2
                      = (Inr (Delim CHR ''}''),
                         \<lparr>buf = t, tokenState = tokenTopValue, tokenStack = []\<rparr>)"
          by (simp add: Token_close_brace popState_def tokenValueEnd_def)
        then have "renderOutput lib clock body
              = Some (None, ?st\<lparr>dec := \<lparr>buf = t, tokenState = tokenTopValue,
                                          tokenStack = []\<rparr>\<rparr>)"
          using t0 l by (simp add: renderOutput_def Let_def)
        then show ?thesis using True by (simp add: ab)
      next
        case False
        with \<open>c = CHR ''}'' \<or> c = CHR '']''\<close> have c: "c = CHR '']''" by simp
        with p' have "Token lib ?d2
                      = (Inl (InvalidCharacter CHR '']'' tokenObjectStart), ?d2)"
          by (simp add: Token_close_bracket tokenError_def)
        then have "renderOutput lib clock body
              = Some (Some (Failed ''failed to read the closing token''
                              (InvalidCharacter CHR '']'' tokenObjectStart)),
                      ?st\<lparr>dec := ?d2\<rparr>)"
          using t0 l by (simp add: renderOutput_def Let_def)
        then show ?thesis using c by (simp add: ab)
      qed
    next
      case False
      have dcd: "Decode lib (unmarshalBatch lib) [] ?d2 = (Some NotAtBeginningOfValue, [], ?d2)"
        by (simp add: Decode_def tokenPrepareForDecode_def tokenValueAllowed_def)
      have rb: "renderBatch lib clock (clock 0) (?st\<lparr>dec := ?d2\<rparr>)
                = (Some (Failed ''failed to decode'' NotAtBeginningOfValue), ?st\<lparr>dec := ?d2\<rparr>)"
        by (simp add: renderBatch_def dcd)
      have l: "renderLoop lib clock (clock 0) (?st\<lparr>dec := ?d1\<rparr>)
               = Some (Some (Failed ''failed to decode'' NotAtBeginningOfValue),
                       ?st\<lparr>dec := ?d2\<rparr>)"
        using False rb by (subst renderLoop.simps) (simp add: More_def p)
      have "renderOutput lib clock body
            = Some (Some (Failed ''failed to decode'' NotAtBeginningOfValue), ?st\<lparr>dec := ?d2\<rparr>)"
        using t0 l by (simp add: renderOutput_def Let_def)
      then show ?thesis using False by (simp add: ab)
    qed
  qed
qed

subsection \<open>The wire format: strings\<close>

lemma hexVal_hexDigit: "d < 16 \<Longrightarrow> hexVal (hexDigit d) = Some d"
  by (auto simp: hexVal_def hexDigit_def Let_def)

lemma stringStep_escape:
  assumes "escape c = x # xs"
  shows "x \<noteq> CHR 0x22 \<and> stringStep x (xs @ rest) = Some ([c], rest)"
proof -
  consider (quote) "c = CHR 0x22" | (bslash) "c = CHR 0x5C" | (nl) "c = CHR 0x0A"
    | (cr) "c = CHR 0x0D" | (tab) "c = CHR 0x09"
    | (hex) "c \<noteq> CHR 0x22" "c \<noteq> CHR 0x5C" "c \<noteq> CHR 0x0A" "c \<noteq> CHR 0x0D" "c \<noteq> CHR 0x09"
        "(of_char c :: nat) < 0x20 \<or> c = CHR ''<'' \<or> c = CHR ''>'' \<or> c = CHR ''&''"
    | (plain) "c \<noteq> CHR 0x22" "c \<noteq> CHR 0x5C" "c \<noteq> CHR 0x0A" "c \<noteq> CHR 0x0D" "c \<noteq> CHR 0x09"
        "\<not> ((of_char c :: nat) < 0x20 \<or> c = CHR ''<'' \<or> c = CHR ''>'' \<or> c = CHR ''&'')"
    by blast
  then show ?thesis
  proof cases
    case quote
    with assms show ?thesis by (auto simp: escape_def stringStep_def simpleEscape_def)
  next
    case bslash
    with assms show ?thesis by (auto simp: escape_def stringStep_def simpleEscape_def)
  next
    case nl
    with assms show ?thesis by (auto simp: escape_def stringStep_def simpleEscape_def)
  next
    case cr
    with assms show ?thesis by (auto simp: escape_def stringStep_def simpleEscape_def)
  next
    case tab
    with assms show ?thesis by (auto simp: escape_def stringStep_def simpleEscape_def)
  next
    case hex
    let ?b = "of_char c :: nat"
    have b: "?b < 128" using hex(6) by auto
    have hi: "hexVal (hexDigit (?b div 16)) = Some (?b div 16)"
      using b by (intro hexVal_hexDigit) simp
    have lo: "hexVal (hexDigit (?b mod 16)) = Some (?b mod 16)"
      by (intro hexVal_hexDigit) simp
    have z: "hexVal CHR ''0'' = Some 0" by (simp add: hexVal_def)
    have h4: "hex4 (CHR ''0'' # CHR ''0'' # hexDigit (?b div 16) # hexDigit (?b mod 16) # rest)
              = Some ?b"
      by (simp add: hex4_def hi lo z)
    have u: "utf8 ?b = [c]" using b by (simp add: utf8_def)
    from hex assms have x: "x = CHR 0x5C"
      and xs: "xs = [CHR ''u'', CHR ''0'', CHR ''0'', hexDigit (?b div 16), hexDigit (?b mod 16)]"
      by (auto simp: escape_def)
    show ?thesis
      using b by (simp add: x xs stringStep_def h4 u)
  next
    case plain
    with assms show ?thesis by (auto simp: escape_def stringStep_def)
  qed
qed

lemma escape_nonempty: "escape c \<noteq> []"
  by (simp add: escape_def)

lemma unquote_escaped:
  "unquote acc (concat (map escape s) @ CHR 0x22 # rest) = Some (acc @ s, rest)"
proof (induction s arbitrary: acc)
  case Nil
  show ?case by simp
next
  case (Cons c s)
  obtain x xs where e: "escape c = x # xs"
    using escape_nonempty [of c] by (cases "escape c") auto
  from stringStep_escape [OF e, of "concat (map escape s) @ CHR 0x22 # rest"]
  have x: "x \<noteq> CHR 0x22"
    and st: "stringStep x (xs @ concat (map escape s) @ CHR 0x22 # rest)
             = Some ([c], concat (map escape s) @ CHR 0x22 # rest)"
    by simp_all
  show ?case
    using x st Cons.IH [of "acc @ [c]"] by (simp add: e)
qed

lemma parseString_encodeString:
  "parseString (encodeString s @ rest) = Some (s, rest)"
  using unquote_escaped [of "[]" s rest] by (simp add: parseString_def encodeString_def)


subsection \<open>The wire format: numbers\<close>

lemma showNat_digits: "c \<in> set (showNat n) \<Longrightarrow> isDigit c"
proof (induction n arbitrary: c rule: showNat.induct)
  case (1 n)
  show ?case
  proof (cases "n < 10")
    case True
    with "1.prems" show ?thesis
      by (subst (asm) showNat.simps) (auto simp: isDigit_def)
  next
    case False
    with "1.prems" have "c \<in> set (showNat (n div 10)) \<or> c = char_of (48 + n mod 10)"
      by (subst (asm) showNat.simps) auto
    then show ?thesis
      using "1.IH" [OF False] by (auto simp: isDigit_def)
  qed
qed

lemma showNat_nonempty: "showNat n \<noteq> []"
  by (subst showNat.simps) simp

lemma digitsVal_snoc: "digitsVal (ds @ [c]) = digitsVal ds * 10 + ((of_char c :: nat) - 48)"
  by (simp add: digitsVal_def)

lemma digitsVal_showNat: "digitsVal (showNat n) = n"
proof (induction n rule: showNat.induct)
  case (1 n)
  show ?case
  proof (cases "n < 10")
    case True
    then show ?thesis
      by (subst showNat.simps) (simp add: digitsVal_def)
  next
    case False
    have "digitsVal (showNat n) = digitsVal (showNat (n div 10) @ [char_of (48 + n mod 10)])"
      using False by (subst showNat.simps) simp
    also have "\<dots> = n div 10 * 10 + n mod 10"
      using "1.IH" [OF False] by (simp add: digitsVal_snoc)
    finally show ?thesis by simp
  qed
qed

lemma showNat_leading: "1 < length (showNat n) \<Longrightarrow> hd (showNat n) \<noteq> CHR ''0''"
proof (induction n rule: showNat.induct)
  case (1 n)
  show ?case
  proof (cases "n < 10")
    case True
    with "1.prems" show ?thesis by (subst (asm) showNat.simps) simp
  next
    case False
    then have s: "showNat n = showNat (n div 10) @ [char_of (48 + n mod 10)]"
      by (subst showNat.simps) simp
    then have h: "hd (showNat n) = hd (showNat (n div 10))"
      using showNat_nonempty [of "n div 10"] by simp
    show ?thesis
    proof (cases "n div 10 < 10")
      case True
      moreover from False have "0 < n div 10" by simp
      ultimately have "showNat (n div 10) = [char_of (48 + n div 10)]"
        by (subst showNat.simps) simp
      moreover have "char_of (48 + n div 10) \<noteq> CHR ''0''"
      proof
        assume "char_of (48 + n div 10) = CHR ''0''"
        then have "(of_char (char_of (48 + n div 10)) :: nat) = of_char CHR ''0''" by simp
        with True \<open>0 < n div 10\<close> show False by simp
      qed
      ultimately show ?thesis by (simp add: h)
    next
      case big: False
      then have "1 < length (showNat (n div 10))"
        using showNat_nonempty [of "n div 10 div 10"] by (subst showNat.simps) simp
      from "1.IH" [OF False this] show ?thesis by (simp add: h)
    qed
  qed
qed

lemma takeWhile_digits:
  assumes "\<forall>c \<in> set ds. isDigit c" and "\<not> isDigit x"
  shows "takeWhile isDigit (ds @ x # r) = ds" and "dropWhile isDigit (ds @ x # r) = x # r"
  using assms by (simp_all add: takeWhile_append2 dropWhile_append3)

lemma parseInt64_digits:
  assumes "\<not> isDigit x" and "x \<noteq> CHR ''.''" and "x \<noteq> CHR ''e''" and "x \<noteq> CHR ''E''"
  shows "parseInt64 (showNat n @ x # rest)
         = (if 2 ^ 63 \<le> int n then None else Some (word_of_int (int n), x # rest))"
    and "parseInt64 (CHR ''-'' # showNat n @ x # rest)
         = (if - int n < - (2 ^ 63) \<or> 2 ^ 63 \<le> - int n then None
            else Some (word_of_int (- int n), x # rest))"
proof -
  have dg: "\<forall>c \<in> set (showNat n). isDigit c" by (simp add: showNat_digits)
  have ne: "showNat n \<noteq> []" by (rule showNat_nonempty)
  have "isDigit (hd (showNat n))"
    using ne dg by (cases "showNat n") auto
  then have hdm: "hd (showNat n) \<noteq> CHR ''-''" by (auto simp: isDigit_def)
  have lead: "\<not> (1 < length (showNat n) \<and> hd (showNat n) = CHR ''0'')"
    using showNat_leading [of n] by auto
  have tw: "takeWhile isDigit (showNat n @ x # rest) = showNat n"
    and dw: "dropWhile isDigit (showNat n @ x # rest) = x # rest"
    using takeWhile_digits [OF dg assms(1)] by simp_all
  have nn: "\<not> int n < - (2 ^ 63)" by (simp add: order.strict_trans2 [of _ 0] not_less)
  show "parseInt64 (showNat n @ x # rest)
         = (if 2 ^ 63 \<le> int n then None else Some (word_of_int (int n), x # rest))"
    unfolding parseInt64_def Let_def
    using ne hdm lead assms(2-4) nn
    by (simp only: tw dw digitsVal_showNat hd_append2 [OF ne] list.sel if_False if_True
        simp_thms append_is_Nil_conv list.distinct split: if_splits;
        simp add: ne)
  show "parseInt64 (CHR ''-'' # showNat n @ x # rest)
         = (if - int n < - (2 ^ 63) \<or> 2 ^ 63 \<le> - int n then None
            else Some (word_of_int (- int n), x # rest))"
    unfolding parseInt64_def Let_def
    using ne lead assms(2-4)
    by (simp only: list.sel list.distinct simp_thms if_True tw dw digitsVal_showNat if_False
        split: if_splits;
        simp add: ne)
qed

lemma parseInt64_encodeInt64:
  "parseInt64 (encodeInt64 v @ CHR '','' # rest) = Some (v, CHR '','' # rest)"
proof -
  have c: "\<not> isDigit CHR '',''" "CHR '','' \<noteq> CHR ''.''" "CHR '','' \<noteq> CHR ''e''"
    "CHR '','' \<noteq> CHR ''E''"
    by (simp_all add: isDigit_def)
  have range: "- (2 ^ 63) \<le> sint v" "sint v < 2 ^ 63"
    using sint_ge [of v] sint_lt [of v] by simp_all
  show ?thesis
  proof (cases "sint v < 0")
    case True
    then have k: "- int (nat (- sint v)) = sint v" by simp
    show ?thesis
      using True range
      by (simp add: encodeInt64_def parseInt64_digits(2) [OF c] k del: of_nat_nat)
  next
    case False
    then have k: "int (nat (sint v)) = sint v" by simp
    show ?thesis
      using False range
      by (simp add: encodeInt64_def parseInt64_digits(1) [OF c] k del: of_nat_nat)
  qed
qed

subsection \<open>The wire format: objects\<close>

lemma skipWs_Cons: "\<not> isSpace c \<Longrightarrow> skipWs (c # r) = c # r"
  by (simp add: skipWs_def)

lemma skipWs_encodeString: "skipWs (encodeString s @ r) = encodeString s @ r"
  by (simp add: skipWs_def encodeString_def isSpace_def)

lemma encodeInt64_head: "\<exists>c r. encodeInt64 v = c # r \<and> \<not> isSpace c"
proof -
  have "\<exists>c r. showNat n = c # r \<and> \<not> isSpace c" for n
  proof -
    obtain c r where s: "showNat n = c # r"
      using showNat_nonempty [of n] by (cases "showNat n") auto
    then have "isDigit c" using showNat_digits [of c n] by simp
    then have "\<not> isSpace c" by (auto simp: isDigit_def isSpace_def)
    with s show ?thesis by blast
  qed
  then show ?thesis
    by (auto simp: encodeInt64_def isSpace_def)
qed

lemma skipWs_encodeInt64: "skipWs (encodeInt64 v @ r) = encodeInt64 v @ r"
proof -
  from encodeInt64_head [of v] obtain c t where "encodeInt64 v = c # t" "\<not> isSpace c"
    by blast
  then show ?thesis by (simp add: skipWs_def)
qed

lemma parse_key_reference:
  \<open>parseString (''"reference"'' @ r) = Some (''reference'', r)\<close>
  by (simp add: parseString_def stringStep_def)

lemma parse_key_status:
  \<open>parseString (''"status"'' @ r) = Some (''status'', r)\<close>
  by (simp add: parseString_def stringStep_def)

lemma parse_key_offset:
  \<open>parseString (''"offset"'' @ r) = Some (''offset'', r)\<close>
  by (simp add: parseString_def stringStep_def)

lemma parse_key_total:
  \<open>parseString (''"total"'' @ r) = Some (''total'', r)\<close>
  by (simp add: parseString_def stringStep_def)

lemma parse_key_errorMessage:
  \<open>parseString (''"errorMessage"'' @ r) = Some (''errorMessage'', r)\<close>
  by (simp add: parseString_def stringStep_def)

lemma parseMembers_string:
  assumes "parseString s = Some (key, CHR '':'' # encodeString v @ CHR '','' # after)"
    and "parseField key (encodeString v @ CHR '','' # after) e
         = Some (e', CHR '','' # after)"
  shows "parseMembers (Suc n) s e = parseMembers n (skipWs after) e'"
  using assms by (simp add: parseMembers.simps skipWs_Cons isSpace_def skipWs_encodeString)

lemma parseMembers_int:
  assumes "parseString s = Some (key, CHR '':'' # encodeInt64 v @ CHR '','' # after)"
    and "parseField key (encodeInt64 v @ CHR '','' # after) e
         = Some (e', CHR '','' # after)"
  shows "parseMembers (Suc n) s e = parseMembers n (skipWs after) e'"
  using assms by (simp add: parseMembers.simps skipWs_Cons isSpace_def skipWs_encodeInt64)

lemma parseMembers_last:
  assumes "parseString s = Some (key, CHR '':'' # encodeString v @ CHR ''}'' # after)"
    and "parseField key (encodeString v @ CHR ''}'' # after) e
         = Some (e', CHR ''}'' # after)"
  shows "parseMembers (Suc n) s e = Some (e', after)"
  using assms by (simp add: parseMembers.simps skipWs_Cons isSpace_def skipWs_encodeString)

lemma parseObject_encodeInfo: "parseObject (encodeInfo e @ rest) = Some (e, rest)"
proof -
  let ?m5 = \<open>''"errorMessage":'' @ encodeString (ErrorMessage e) @ ''}'' @ rest\<close>
  let ?m4 = \<open>''"total":'' @ encodeInt64 (Total e) @ '','' @ ?m5\<close>
  let ?m3 = \<open>''"offset":'' @ encodeInt64 (Offset e) @ '','' @ ?m4\<close>
  let ?m2 = \<open>''"status":'' @ encodeString (Status e) @ '','' @ ?m3\<close>
  let ?m1 = \<open>''"reference":'' @ encodeString (Ref e) @ '','' @ ?m2\<close>
  let ?e1 = "zeroInfo\<lparr>Ref := Ref e\<rparr>"
  let ?e2 = "?e1\<lparr>Status := Status e\<rparr>"
  let ?e3 = "?e2\<lparr>Offset := Offset e\<rparr>"
  let ?e4 = "?e3\<lparr>Total := Total e\<rparr>"
  let ?e5 = "?e4\<lparr>ErrorMessage := ErrorMessage e\<rparr>"
  have q: "\<not> isSpace CHR 0x22" by (simp add: isSpace_def)
  have s2: "skipWs ?m2 = ?m2" and s3: "skipWs ?m3 = ?m3" and s4: "skipWs ?m4 = ?m4"
    and s5: "skipWs ?m5 = ?m5"
    using q by (simp_all add: skipWs_Cons)
  have 1: "parseMembers (Suc n) ?m1 zeroInfo = parseMembers n ?m2 ?e1" for n
  proof -
    have "parseMembers (Suc n) ?m1 zeroInfo = parseMembers n (skipWs ?m2) ?e1"
    proof (rule parseMembers_string [where key = "''reference''" and v = "Ref e"])
      show "parseString ?m1 = Some (''reference'', CHR '':'' # encodeString (Ref e) @ CHR '','' # ?m2)"
        using parse_key_reference [of "CHR '':'' # encodeString (Ref e) @ CHR '','' # ?m2"]
        by simp
      show "parseField ''reference'' (encodeString (Ref e) @ CHR '','' # ?m2) zeroInfo
            = Some (?e1, CHR '','' # ?m2)"
        by (simp add: parseField_def parseString_encodeString)
    qed
    then show ?thesis by (simp only: s2)
  qed
  have 2: "parseMembers (Suc n) ?m2 ?e1 = parseMembers n ?m3 ?e2" for n
  proof -
    have "parseMembers (Suc n) ?m2 ?e1 = parseMembers n (skipWs ?m3) ?e2"
    proof (rule parseMembers_string [where key = "''status''" and v = "Status e"])
      show "parseString ?m2 = Some (''status'', CHR '':'' # encodeString (Status e) @ CHR '','' # ?m3)"
        using parse_key_status [of "CHR '':'' # encodeString (Status e) @ CHR '','' # ?m3"]
        by simp
      show "parseField ''status'' (encodeString (Status e) @ CHR '','' # ?m3) ?e1
            = Some (?e2, CHR '','' # ?m3)"
        by (simp add: parseField_def parseString_encodeString)
    qed
    then show ?thesis by (simp only: s3)
  qed
  have 3: "parseMembers (Suc n) ?m3 ?e2 = parseMembers n ?m4 ?e3" for n
  proof -
    have "parseMembers (Suc n) ?m3 ?e2 = parseMembers n (skipWs ?m4) ?e3"
    proof (rule parseMembers_int [where key = "''offset''" and v = "Offset e"])
      show "parseString ?m3 = Some (''offset'', CHR '':'' # encodeInt64 (Offset e) @ CHR '','' # ?m4)"
        using parse_key_offset [of "CHR '':'' # encodeInt64 (Offset e) @ CHR '','' # ?m4"]
        by simp
      show "parseField ''offset'' (encodeInt64 (Offset e) @ CHR '','' # ?m4) ?e2
            = Some (?e3, CHR '','' # ?m4)"
        by (simp add: parseField_def parseInt64_encodeInt64)
    qed
    then show ?thesis by (simp only: s4)
  qed
  have 4: "parseMembers (Suc n) ?m4 ?e3 = parseMembers n ?m5 ?e4" for n
  proof -
    have "parseMembers (Suc n) ?m4 ?e3 = parseMembers n (skipWs ?m5) ?e4"
    proof (rule parseMembers_int [where key = "''total''" and v = "Total e"])
      show "parseString ?m4 = Some (''total'', CHR '':'' # encodeInt64 (Total e) @ CHR '','' # ?m5)"
        using parse_key_total [of "CHR '':'' # encodeInt64 (Total e) @ CHR '','' # ?m5"]
        by simp
      show "parseField ''total'' (encodeInt64 (Total e) @ CHR '','' # ?m5) ?e3
            = Some (?e4, CHR '','' # ?m5)"
        by (simp add: parseField_def parseInt64_encodeInt64)
    qed
    then show ?thesis by (simp only: s5)
  qed
  have 5: "parseMembers (Suc n) ?m5 ?e4 = Some (?e5, rest)" for n
  proof (rule parseMembers_last [where key = "''errorMessage''" and v = "ErrorMessage e"])
    show "parseString ?m5
          = Some (''errorMessage'', CHR '':'' # encodeString (ErrorMessage e) @ CHR ''}'' # rest)"
      using parse_key_errorMessage
        [of "CHR '':'' # encodeString (ErrorMessage e) @ CHR ''}'' # rest"]
      by simp
    show "parseField ''errorMessage'' (encodeString (ErrorMessage e) @ CHR ''}'' # rest) ?e4
          = Some (?e5, CHR ''}'' # rest)"
      by (simp add: parseField_def parseString_encodeString)
  qed
  have all: "parseMembers (Suc (Suc (Suc (Suc (Suc n))))) ?m1 zeroInfo = Some (?e5, rest)" for n
    by (simp only: 1 2 3 4 5)
  have e5: "?e5 = e" by (cases e) (simp add: zeroInfo_def)
  have enc: "encodeInfo e @ rest = CHR ''{'' # ?m1"
    by (simp add: encodeInfo_def)
  have len: "\<exists>n. length ?m1 = Suc (Suc (Suc (Suc (Suc n))))"
    by simp
  then obtain n where n: "length ?m1 = Suc (Suc (Suc (Suc (Suc n))))" by blast
  have hd: "?m1 = CHR 0x22 # tl ?m1" by simp
  have "parseObject (CHR ''{'' # ?m1) = parseMembers (length ?m1) ?m1 zeroInfo"
    unfolding parseObject_def
    by (subst (1 2) hd) (simp add: skipWs_Cons q del: append.simps list.sel)
  then show ?thesis
    by (simp only: enc n all e5)
qed

subsection \<open>The wire format: batches\<close>

lemma encodeInfo_head: "\<exists>t. encodeInfo e = CHR ''{'' # t"
  by (simp add: encodeInfo_def)

lemma encodeInfos_head: "es \<noteq> [] \<Longrightarrow> \<exists>t. encodeInfos es = CHR ''{'' # t"
proof (cases es)
  case Nil
  then show "es \<noteq> [] \<Longrightarrow> ?thesis" by simp
next
  case (Cons e es')
  obtain t where "encodeInfo e = CHR ''{'' # t" using encodeInfo_head by blast
  with Cons show ?thesis by (cases es') simp_all
qed

lemma skipWs_encodeInfos: "skipWs (encodeInfos es @ CHR '']'' # r) = encodeInfos es @ CHR '']'' # r"
proof (cases "es = []")
  case True
  then show ?thesis by (simp add: skipWs_def isSpace_def)
next
  case False
  from encodeInfos_head [OF this] obtain t where "encodeInfos es = CHR ''{'' # t" by blast
  then show ?thesis by (simp add: skipWs_def isSpace_def)
qed

lemma parseObjects_encodeInfos:
  "es \<noteq> [] \<Longrightarrow> length es \<le> n \<Longrightarrow>
   parseObjects n (encodeInfos es @ CHR '']'' # rest) acc = Some (acc @ es, rest)"
proof (induction es arbitrary: n acc)
  case Nil
  then show ?case by simp
next
  case (Cons e es)
  from Cons.prems(2) obtain m where n: "n = Suc m" and m: "length es \<le> m"
    by (cases n) auto
  show ?case
  proof (cases "es = []")
    case True
    then show ?thesis
      by (simp add: n parseObjects.simps parseObject_encodeInfo skipWs_Cons isSpace_def)
  next
    case False
    then obtain e' es' where es: "es = e' # es'" by (cases es) auto
    have enc: "encodeInfos (e # es) @ CHR '']'' # rest
               = encodeInfo e @ (CHR '','' # encodeInfos es @ CHR '']'' # rest)"
      by (simp add: es)
    have "parseObjects (Suc m) (encodeInfo e @ (CHR '','' # encodeInfos es @ CHR '']'' # rest)) acc
          = parseObjects m (encodeInfos es @ CHR '']'' # rest) (acc @ [e])"
      by (simp add: parseObjects.simps parseObject_encodeInfo skipWs_Cons isSpace_def
          skipWs_encodeInfos)
    also have "\<dots> = Some ((acc @ [e]) @ es, rest)"
      by (rule Cons.IH [OF False m])
    finally show ?thesis by (simp add: n enc)
  qed
qed

lemma encodeInfos_length: "length es \<le> length (encodeInfos es)"
proof (induction es rule: encodeInfos.induct)
  case 1
  show ?case by simp
next
  case (2 e)
  obtain t where "encodeInfo e = CHR ''{'' # t" using encodeInfo_head by blast
  then show ?case by simp
next
  case (3 e v va)
  obtain t where "encodeInfo e = CHR ''{'' # t" using encodeInfo_head by blast
  with 3 show ?case by simp
qed

lemma parseBatch_encodeBatch: "parseBatch (encodeBatch batch) = Some batch"
proof (cases "batch = []")
  case True
  then show ?thesis
    by (simp add: parseBatch_def encodeBatch_def skipWs_def isSpace_def)
next
  case False
  from encodeInfos_head [OF False] obtain t where t: "encodeInfos batch = CHR ''{'' # t"
    by blast
  let ?r = "encodeInfos batch @ '']''"
  have len: "length batch \<le> length ?r"
    using encodeInfos_length [of batch] by simp
  have p: "parseObjects (length ?r) ?r [] = Some (batch, [])"
    using parseObjects_encodeInfos [OF False len, of "[]" "[]"] by simp
  have sk: "skipWs ?r = CHR ''{'' # t @ '']''"
    by (simp add: t skipWs_def isSpace_def)
  have r: "?r = CHR ''{'' # t @ '']''" by (simp add: t)
  show ?thesis
    using p unfolding parseBatch_def encodeBatch_def
    by (simp add: skipWs_Cons isSpace_def sk) (simp add: r skipWs_def)
qed

subsection \<open>The wire format: the extent of a batch\<close>

lemma closeBrackets_string: "closeBrackets d (encodeString s @ r) = closeBrackets d r"
  using unquote_escaped [of "[]" s r]
  by (simp add: encodeString_def closeBrackets.simps(2))

lemma closeBrackets_plain:
  assumes "\<forall>c \<in> set xs. c \<noteq> CHR 0x22 \<and> c \<noteq> CHR ''['' \<and> c \<noteq> CHR ''{'' \<and> c \<noteq> CHR '']''
                          \<and> c \<noteq> CHR ''}''"
  shows "closeBrackets d (xs @ r) = closeBrackets d r"
  using assms by (induction xs) (simp_all add: closeBrackets.simps(2))

lemma isDigit_plain:
  "isDigit c \<Longrightarrow> c \<noteq> CHR 0x22 \<and> c \<noteq> CHR ''['' \<and> c \<noteq> CHR ''{'' \<and> c \<noteq> CHR '']'' \<and> c \<noteq> CHR ''}''"
  by (auto simp: isDigit_def)

lemma closeBrackets_int: "closeBrackets d (encodeInt64 v @ r) = closeBrackets d r"
proof (rule closeBrackets_plain)
  have "\<forall>c \<in> set (showNat n). c \<noteq> CHR 0x22 \<and> c \<noteq> CHR ''['' \<and> c \<noteq> CHR ''{'' \<and> c \<noteq> CHR '']''
                          \<and> c \<noteq> CHR ''}''" for n
    using showNat_digits [of _ n] isDigit_plain by blast
  then show "\<forall>c \<in> set (encodeInt64 v). c \<noteq> CHR 0x22 \<and> c \<noteq> CHR ''['' \<and> c \<noteq> CHR ''{''
                          \<and> c \<noteq> CHR '']'' \<and> c \<noteq> CHR ''}''"
    by (simp add: encodeInt64_def)
qed

lemma closeBrackets_key:
  assumes "\<forall>c \<in> set key. c \<noteq> CHR 0x22 \<and> c \<noteq> CHR 0x5C \<and> c \<noteq> CHR 0x0A \<and> c \<noteq> CHR 0x0D
             \<and> c \<noteq> CHR 0x09 \<and> \<not> (of_char c :: nat) < 0x20 \<and> c \<noteq> CHR ''<'' \<and> c \<noteq> CHR ''>''
             \<and> c \<noteq> CHR ''&''"
  shows "closeBrackets d (CHR 0x22 # key @ CHR 0x22 # r) = closeBrackets d r"
proof -
  have "concat (map escape key) = key"
    using assms by (induction key) (simp_all add: escape_def)
  then have "encodeString key = CHR 0x22 # key @ [CHR 0x22]"
    by (simp add: encodeString_def)
  with closeBrackets_string [of d key r] show ?thesis by simp
qed

lemma closeBrackets_encodeInfo: "closeBrackets d (encodeInfo e @ r) = closeBrackets d r"
proof -
  have k1: "closeBrackets n (CHR 0x22 # ''reference'' @ CHR 0x22 # t) = closeBrackets n t"
    and k2: "closeBrackets n (CHR 0x22 # ''status'' @ CHR 0x22 # t) = closeBrackets n t"
    and k3: "closeBrackets n (CHR 0x22 # ''offset'' @ CHR 0x22 # t) = closeBrackets n t"
    and k4: "closeBrackets n (CHR 0x22 # ''total'' @ CHR 0x22 # t) = closeBrackets n t"
    and k5: "closeBrackets n (CHR 0x22 # ''errorMessage'' @ CHR 0x22 # t) = closeBrackets n t"
    for n t
    by (rule closeBrackets_key, simp)+
  have colon: "closeBrackets n (CHR '':'' # t) = closeBrackets n t"
    and comma: "closeBrackets n (CHR '','' # t) = closeBrackets n t"
    and opn: "closeBrackets n (CHR ''{'' # t) = closeBrackets (Suc n) t"
    and cls: "closeBrackets (Suc n) (CHR ''}'' # t) = closeBrackets n t" for n t
    by (simp_all add: closeBrackets.simps(2))
  show ?thesis
    using k1 k2 k3 k4 k5
    by (simp add: encodeInfo_def opn colon comma cls closeBrackets_string closeBrackets_int)
qed

lemma closeBrackets_encodeInfos: "closeBrackets d (encodeInfos es @ r) = closeBrackets d r"
proof (induction es rule: encodeInfos.induct)
  case 1
  show ?case by simp
next
  case (2 e)
  show ?case by (simp add: closeBrackets_encodeInfo)
next
  case (3 e v va)
  have "closeBrackets d (CHR '','' # t) = closeBrackets d t" for t
    by (simp add: closeBrackets.simps(2))
  with 3 show ?case by (simp add: closeBrackets_encodeInfo)
qed

lemma valueRest_encodeBatch: "valueRest (encodeBatch batch @ rest) = Some rest"
  by (simp add: valueRest_def encodeBatch_def closeBrackets_encodeInfos closeBrackets.simps(2))

lemma readValue_encodeBatch:
  "readValue specJson (encodeBatch batch @ rest) = Inr (length (encodeBatch batch))"
proof -
  let ?b = "encodeBatch batch @ rest"
  obtain t where t: "?b = CHR ''['' # t"
    by (simp add: encodeBatch_def)
  have "skipWs ?b = CHR ''['' # t"
    by (simp add: t skipWs_def isSpace_def)
  moreover have "valueRest (CHR ''['' # t) = Some rest"
    using valueRest_encodeBatch [of batch rest] by (simp only: t)
  ultimately have "readValue specJson ?b = Inr (length ?b - length rest)"
    by (simp add: specJson_def)
  then show ?thesis by simp
qed

lemma showNat_small: "showNat 50 = ''50''" "showNat 100 = ''100''" "showNat 7 = ''7''"
  by (simp_all add: showNat.simps char_of_eq_iff)

lemma sample_text:
  \<open>encodeBatch sampleBatch = ''[{"reference":"a","status":"downloading","offset":50,"total":100,"errorMessage":""},{"reference":"b","status":"done","offset":7,"total":7,"errorMessage":"x'' @ [CHR 0x5C] @ ''u003cy"}]''\<close>
  by (simp add: sampleBatch_def encodeBatch_def encodeInfo_def encodeString_def escape_def
      encodeInt64_def showNat_small hexDigit_def char_of_eq_iff)

section \<open>The claims\<close>

text \<open>
  Claim C1.  As stated: a stream whose first token is not an opening bracket (one
  that starts with a brace, say) fails with a framing error before any batch is
  decoded or any line rendered.  The code reads the first token and discards it:
  it fails at the opening only when no token can be read.  The stream \<^verbatim>\<open>{}\<close> is
  accepted, and \<^verbatim>\<open>renderOutput\<close> returns \<^verbatim>\<open>nil\<close> for it.
\<close>

theorem opening_brace_accepted:
  "renderOutput (tableJson []) int ''{}''
   = Some (None, \<lparr>dec = \<lparr>buf = [], tokenState = tokenTopValue, tokenStack = []\<rparr>,
                  tw = [], fw = [], stdout = [], ticks = 1\<rparr>)"
proof -
  let ?d0 = "\<lparr>buf = ''{}'', tokenState = tokenTopValue, tokenStack = []\<rparr>"
  let ?d1 = "\<lparr>buf = ''}'', tokenState = tokenObjectStart, tokenStack = [tokenTopValue]\<rparr>"
  let ?st = "\<lparr>dec = ?d0, tw = [], fw = [], stdout = [], ticks = 1\<rparr>"
  have p0: "peek ?d0 = (Inr CHR ''{'', ?d0)" by (simp add: peek_def isSpace_def)
  have t0: "Token (tableJson []) ?d0 = (Inr (Delim CHR ''{''), ?d1)"
    by (simp add: Token_open_brace [OF p0] tokenValueAllowed_def pushState_def)
  have p1: "peek ?d1 = (Inr CHR ''}'', ?d1)" by (simp add: peek_def isSpace_def)
  have l: "renderLoop (tableJson []) int 0 (?st\<lparr>dec := ?d1\<rparr>) = Some (None, ?st\<lparr>dec := ?d1\<rparr>)"
    by (subst renderLoop.simps) (simp add: More_def p1)
  have t1: "Token (tableJson []) ?d1
            = (Inr (Delim CHR ''}''), \<lparr>buf = [], tokenState = tokenTopValue, tokenStack = []\<rparr>)"
    by (simp add: Token_close_brace [OF p1] popState_def tokenValueEnd_def)
  show ?thesis
    using t0 l t1 by (simp add: renderOutput_def Let_def NewDecoder_def)
qed

text \<open>
  Claim C1, amended.  A stream whose first token cannot be read fails with the
  error \<^verbatim>\<open>failed to read the opening token\<close>, with nothing decoded and nothing
  written: so does a stream that is empty or white space only, and one whose first
  character after the white space is a closing bracket, a closing brace, a colon
  or a comma.  A stream that opens with a brace is not refused at the opening:
  nothing is decoded or written for it either, and the result is \<^verbatim>\<open>nil\<close> when the
  closing brace follows, the error of the closing token when a closing bracket or
  the end of the input follows, and the error of \<^verbatim>\<open>Decode\<close> when anything else
  follows.
\<close>

theorem opening_token:
  "(Token lib (NewDecoder body) = (Inl err, d) \<longrightarrow>
      renderOutput lib clock body
      = Some (Some (Failed ''failed to read the opening token'' err),
              \<lparr>dec = d, tw = [], fw = [], stdout = [], ticks = 1\<rparr>))
   \<and> (dropWhile isSpace body = [] \<longrightarrow>
        renderOutput lib clock body
        = Some (Some (Failed ''failed to read the opening token'' EOF),
                \<lparr>dec = NewDecoder body, tw = [], fw = [], stdout = [], ticks = 1\<rparr>))
   \<and> (dropWhile isSpace body = c # rest
        \<and> (c = CHR '']'' \<or> c = CHR ''}'' \<or> c = CHR '':'' \<or> c = CHR '','') \<longrightarrow>
        renderOutput lib clock body
        = Some (Some (Failed ''failed to read the opening token''
                        (InvalidCharacter c tokenTopValue)),
                \<lparr>dec = \<lparr>buf = c # rest, tokenState = tokenTopValue, tokenStack = []\<rparr>,
                   tw = [], fw = [], stdout = [], ticks = 1\<rparr>))
   \<and> (dropWhile isSpace body = CHR ''{'' # rest \<longrightarrow>
        (\<exists>st. renderOutput lib clock body = Some (afterBrace rest, st)
              \<and> tw st = [] \<and> fw st = [] \<and> stdout st = [] \<and> ticks st = 1))"
  using renderOutput_opening_error [of lib body err d clock]
    renderOutput_no_token [of body lib clock]
    renderOutput_bad_token [of body c rest lib clock]
    renderOutput_opening_brace [of body rest lib clock]
  by blast

theorem opening_token_witness:
  "renderOutput (tableJson []) int '' ''
   = Some (Some (Failed ''failed to read the opening token'' EOF),
           \<lparr>dec = NewDecoder '' '', tw = [], fw = [], stdout = [], ticks = 1\<rparr>)
   \<and> renderOutput (tableJson []) int '' ]''
   = Some (Some (Failed ''failed to read the opening token''
                   (InvalidCharacter CHR '']'' tokenTopValue)),
           \<lparr>dec = \<lparr>buf = '']'', tokenState = tokenTopValue, tokenStack = []\<rparr>,
              tw = [], fw = [], stdout = [], ticks = 1\<rparr>)
   \<and> (\<exists>st. renderOutput (tableJson []) int ''{ 5}''
            = Some (Some (Failed ''failed to decode'' NotAtBeginningOfValue), st)
          \<and> tw st = [] \<and> fw st = [] \<and> stdout st = [] \<and> ticks st = 1)"
proof -
  have 1: "dropWhile isSpace '' '' = []" by (simp add: isSpace_def)
  have 2: "dropWhile isSpace '' ]'' = CHR '']'' # []" by (simp add: isSpace_def)
  have 3: "dropWhile isSpace ''{ 5}'' = CHR ''{'' # '' 5}''" by (simp add: isSpace_def)
  have 4: "afterBrace '' 5}'' = Some (Failed ''failed to decode'' NotAtBeginningOfValue)"
    by (simp add: afterBrace_def isSpace_def)
  from opening_token [of "tableJson []" "'' ''" EOF "NewDecoder '' ''" int "CHR '']''" "[]"] 1
  have a: "renderOutput (tableJson []) int '' ''
   = Some (Some (Failed ''failed to read the opening token'' EOF),
           \<lparr>dec = NewDecoder '' '', tw = [], fw = [], stdout = [], ticks = 1\<rparr>)"
    by blast
  from opening_token [of "tableJson []" "'' ]''" EOF "NewDecoder '' ''" int "CHR '']''" "[]"] 2
  have b: "renderOutput (tableJson []) int '' ]''
   = Some (Some (Failed ''failed to read the opening token''
                   (InvalidCharacter CHR '']'' tokenTopValue)),
           \<lparr>dec = \<lparr>buf = '']'', tokenState = tokenTopValue, tokenStack = []\<rparr>,
              tw = [], fw = [], stdout = [], ticks = 1\<rparr>)"
    by blast
  from opening_token [of "tableJson []" "''{ 5}''" EOF "NewDecoder '' ''" int "CHR ''{''" "'' 5}''"]
    3 4
  have c: "\<exists>st. renderOutput (tableJson []) int ''{ 5}''
            = Some (Some (Failed ''failed to decode'' NotAtBeginningOfValue), st)
          \<and> tw st = [] \<and> fw st = [] \<and> stdout st = [] \<and> ticks st = 1"
    by simp
  from a b c show ?thesis by blast
qed

text \<open>
  Claim C2.  As stated: for a batch with a record whose \<^verbatim>\<open>ErrorMessage\<close> is not empty,
  no summary line is written and the error's message is that \<^verbatim>\<open>ErrorMessage\<close>,
  character for character.  \<^verbatim>\<open>display\<close> passes the message to \<^verbatim>\<open>fmt.Errorf\<close> as the
  format, so a message with a percent sign is not returned as it is: for
  \<^verbatim>\<open>disk 100% full\<close> the error reads \<^verbatim>\<open>disk 100%!f(MISSING)ull\<close>.
\<close>

theorem display_percent_message:
  "display [] [\<lparr>Ref = ''layer'', Status = ''downloading'', Offset = 0, Total = 0,
                 ErrorMessage = ''disk 100% full''\<rparr>] 0 1 2
   = (Some (ErrorString ''disk 100%!f(MISSING)ull''), [])"
  by (simp add: display_def Errorf_def directive_def argNumber_def dirWidth_def dirPrec_def
      dirVerb_def isFlag_def isDigit_def runeLen_def)

text \<open>
  Claim C3.  For a batch with a record whose \<^verbatim>\<open>ErrorMessage\<close> is not empty, rendering
  stops at the first such record \<open>e\<close>: the writer has received the lines of the
  records before \<open>e\<close> and nothing else (no line for \<open>e\<close> or a later record, no
  summary line), and the loop of \<^verbatim>\<open>renderOutput\<close> returns the error with the decoder
  where the \<^verbatim>\<open>Decode\<close> of this batch left it, so no further batch is decoded.
\<close>

theorem render_aborts_at_first_error:
  assumes "\<forall>s \<in> set pre. ErrorMessage s = []" and "ErrorMessage e \<noteq> []"
    and "More (dec st) = (True, d0)"
    and "Decode lib (unmarshalBatch lib) [] d0 = (None, pre @ e # post, d)"
  shows "display w (pre @ e # post) start now1 now2
         = (Some (Errorf (ErrorMessage e)), w @ map eventLine pre)
       \<and> renderLoop lib clock start st
         = Some (Some (Errorf (ErrorMessage e)), st\<lparr>dec := d, tw := map eventLine pre\<rparr>)"
  using display_abort [OF assms(1,2)] renderLoop_abort [OF assms(3,4,1,2)] by simp

theorem render_aborts_at_first_error_witness:
  "display [] failingBatch 0 1 2
   = (Some (ErrorString ''boom''),
      [(sizedFormat, [Str ''a'', Str ''downloading'', Bar (Finite (1 / 2)), Bytes 50, Bytes 100])])
   \<and> renderLoop (tableJson [(failingText, failingBatch)]) int 0 failingState
   = Some (Some (ErrorString ''boom''),
           \<lparr>dec = \<lparr>buf = '']'', tokenState = tokenArrayComma, tokenStack = [tokenTopValue]\<rparr>,
              tw = [(sizedFormat,
                     [Str ''a'', Str ''downloading'', Bar (Finite (1 / 2)), Bytes 50, Bytes 100])],
              fw = [], stdout = [], ticks = 1\<rparr>)"
proof -
  let ?a = "\<lparr>Ref = ''a'', Status = ''downloading'', Offset = 50, Total = 100, ErrorMessage = []\<rparr>"
  let ?b = "\<lparr>Ref = [], Status = [], Offset = 0, Total = 0, ErrorMessage = ''boom''\<rparr>"
  let ?c = "\<lparr>Ref = ''c'', Status = [], Offset = 0, Total = 0, ErrorMessage = []\<rparr>"
  have split: "failingBatch = [?a] @ ?b # [?c]" by (simp add: failingBatch_def)
  have 1: "\<forall>s \<in> set [?a]. ErrorMessage s = []" by simp
  have 2: "ErrorMessage ?b \<noteq> []" by simp
  have 4: "Decode (tableJson [(failingText, failingBatch)])
             (unmarshalBatch (tableJson [(failingText, failingBatch)])) [] (dec failingState)
           = (None, [?a] @ ?b # [?c],
              \<lparr>buf = '']'', tokenState = tokenArrayComma, tokenStack = [tokenTopValue]\<rparr>)"
    using failing_Decode by (simp only: split)
  show ?thesis
    using render_aborts_at_first_error
      [OF 1 2 failing_More 4, where w = "[]" and start = 0 and ?now1.0 = 1 and ?now2.0 = 2
        and clock = int]
    by (simp add: split eventLine_def Errorf_def failingState_def bar_half)
qed

text \<open>
  Claim C4.  As stated: the bar of a record whose status is \<^verbatim>\<open>downloading\<close> or
  \<^verbatim>\<open>uploading\<close> and whose total is positive is offset/total.  \<^verbatim>\<open>display\<close> computes
  the quotient in \<^verbatim>\<open>float64\<close>, which rounds the offset, the total and the quotient:
  for the offset \<open>2 ^ 62 - 1\<close> and the total \<open>2 ^ 62\<close> the offset is rounded to
  \<open>2 ^ 62\<close> and the bar is 1, not offset/total.
\<close>

theorem display_transfer_bar_rounded:
  "\<not> (\<forall>e. ErrorMessage e = [] \<and> Status e = ''downloading'' \<and> 0 < sint (Total e) \<longrightarrow>
         snd (display [] [e] 0 1 2) ! 0
         = (sizedFormat,
            [Str (Ref e), Str (Status e),
             Bar (Finite (real_of_int (sint (Offset e)) / real_of_int (sint (Total e)))),
             Bytes (Offset e), Bytes (Total e)]))"
proof
  let ?e = "\<lparr>Ref = ''a'', Status = ''downloading'', Offset = 4611686018427387903,
             Total = 4611686018427387904, ErrorMessage = []\<rparr>"
  assume "\<forall>e. ErrorMessage e = [] \<and> Status e = ''downloading'' \<and> 0 < sint (Total e) \<longrightarrow>
         snd (display [] [e] 0 1 2) ! 0
         = (sizedFormat,
            [Str (Ref e), Str (Status e),
             Bar (Finite (real_of_int (sint (Offset e)) / real_of_int (sint (Total e)))),
             Bytes (Offset e), Bytes (Total e)])"
  from this [rule_format, of ?e]
  have "snd (display [] [?e] 0 1 2) ! 0
        = (sizedFormat,
           [Str ''a'', Str ''downloading'',
            Bar (Finite (4611686018427387903 / 4611686018427387904)),
            Bytes 4611686018427387903, Bytes 4611686018427387904])"
    by simp
  then show False
    by (simp add: display_def Fprintf_def bar_rounded_to_one)
qed

text \<open>
  Claim C4, amended.  A record whose status is \<^verbatim>\<open>downloading\<close> or \<^verbatim>\<open>uploading\<close> is
  written with the format that has the size column, with its offset and its total
  as the sizes.  When the total is positive the bar is the \<^verbatim>\<open>float64\<close> quotient of
  the offset and the total, each converted to \<^verbatim>\<open>float64\<close>: a finite value within
  the relative error \<open>1 / 2 ^ 51\<close> of offset/total, and offset/total rounded once
  when neither the offset nor the total is beyond \<open>2 ^ 53\<close> in magnitude; for the
  offset 50 and the total 100 it is 0.5, whatever the \<^verbatim>\<open>Ref\<close>.  When the total is 0
  or negative the bar is 0.  The record is at any place of a batch whose earlier
  records carry no error message.
\<close>

theorem display_transfer_line:
  assumes "\<forall>s \<in> set pre. ErrorMessage s = []" and "ErrorMessage e = []"
    and "Status e = ''downloading'' \<or> Status e = ''uploading''"
  shows "\<exists>b. snd (display w (pre @ e # post) start now1 now2) ! (length w + length pre)
             = (sizedFormat,
                [Str (Ref e), Str (Status e), Bar b, Bytes (Offset e), Bytes (Total e)])
           \<and> (0 < sint (Total e) \<longrightarrow>
                b = fdiv (float64_of_int64 (Offset e)) (float64_of_int64 (Total e))
                \<and> (\<exists>q. b = Finite q
                       \<and> \<bar>q - real_of_int (sint (Offset e)) / real_of_int (sint (Total e))\<bar>
                         \<le> \<bar>real_of_int (sint (Offset e)) / real_of_int (sint (Total e))\<bar>
                           / 2 ^ 51)
                \<and> (\<bar>sint (Offset e)\<bar> \<le> 2 ^ 53 \<and> sint (Total e) \<le> 2 ^ 53 \<longrightarrow>
                     b = round64 (real_of_int (sint (Offset e))
                                  / real_of_int (sint (Total e)))))
           \<and> (Offset e = 50 \<and> Total e = 100 \<longrightarrow> b = Finite (1 / 2))
           \<and> (sint (Total e) \<le> 0 \<longrightarrow> b = Finite 0)"
proof -
  let ?b = "if 0 < sint (Total e)
            then fdiv (float64_of_int64 (Offset e)) (float64_of_int64 (Total e))
            else Finite 0"
  have line: "snd (display w (pre @ e # post) start now1 now2) ! (length w + length pre)
              = (sizedFormat,
                 [Str (Ref e), Str (Status e), Bar ?b, Bytes (Offset e), Bytes (Total e)])"
    using assms(3) by (auto simp: display_writer_line [OF assms(1,2)] eventLine_def)
  have pos: "?b = fdiv (float64_of_int64 (Offset e)) (float64_of_int64 (Total e))"
    if "0 < sint (Total e)" using that by simp
  have err: "\<exists>q. ?b = Finite q
                  \<and> \<bar>q - real_of_int (sint (Offset e)) / real_of_int (sint (Total e))\<bar>
                    \<le> \<bar>real_of_int (sint (Offset e)) / real_of_int (sint (Total e))\<bar> / 2 ^ 51"
    if "0 < sint (Total e)" using bar_error [OF that, of "Offset e"] that by simp
  have exact: "?b = round64 (real_of_int (sint (Offset e)) / real_of_int (sint (Total e)))"
    if "0 < sint (Total e)" "\<bar>sint (Offset e)\<bar> \<le> 2 ^ 53" "sint (Total e) \<le> 2 ^ 53"
    using bar_exact [OF that] that(1) by simp
  have half: "?b = Finite (1 / 2)" if "Offset e = 50" "Total e = 100"
    using that by (simp add: bar_half)
  have zero: "?b = Finite 0" if "sint (Total e) \<le> 0" using that by simp
  from line pos err exact half zero show ?thesis by blast
qed

theorem display_transfer_line_witness:
  "snd (display [] [\<lparr>Ref = ''layer-1'', Status = ''downloading'', Offset = 50, Total = 100,
                      ErrorMessage = []\<rparr>] 0 1 2) ! 0
   = (sizedFormat,
      [Str ''layer-1'', Str ''downloading'', Bar (Finite (1 / 2)), Bytes 50, Bytes 100])
   \<and> snd (display [] [\<lparr>Ref = ''layer-2'', Status = ''uploading'', Offset = 7, Total = 0,
                        ErrorMessage = []\<rparr>] 0 1 2) ! 0
   = (sizedFormat, [Str ''layer-2'', Str ''uploading'', Bar (Finite 0), Bytes 7, Bytes 0])
   \<and> snd (display [] [\<lparr>Ref = ''layer-3'', Status = ''downloading'', Offset = 1, Total = 3,
                        ErrorMessage = []\<rparr>] 0 1 2) ! 0
   = (sizedFormat,
      [Str ''layer-3'', Str ''downloading'',
       Bar (Finite (6004799503160661 / 18014398509481984)), Bytes 1, Bytes 3])"
proof -
  let ?e1 = "\<lparr>Ref = ''layer-1'', Status = ''downloading'', Offset = 50, Total = 100,
              ErrorMessage = []\<rparr>"
  let ?e2 = "\<lparr>Ref = ''layer-2'', Status = ''uploading'', Offset = 7, Total = 0,
              ErrorMessage = []\<rparr>"
  let ?e3 = "\<lparr>Ref = ''layer-3'', Status = ''downloading'', Offset = 1, Total = 3,
              ErrorMessage = []\<rparr>"
  from display_transfer_line [of "[]" ?e1 "[]" "[]" 0 1 2]
  have 1: "snd (display [] [?e1] 0 1 2) ! 0
           = (sizedFormat,
              [Str ''layer-1'', Str ''downloading'', Bar (Finite (1 / 2)), Bytes 50, Bytes 100])"
    by auto
  from display_transfer_line [of "[]" ?e2 "[]" "[]" 0 1 2]
  have 2: "snd (display [] [?e2] 0 1 2) ! 0
           = (sizedFormat, [Str ''layer-2'', Str ''uploading'', Bar (Finite 0), Bytes 7, Bytes 0])"
    by auto
  from display_transfer_line [of "[]" ?e3 "[]" "[]" 0 1 2]
  have 3: "snd (display [] [?e3] 0 1 2) ! 0
           = (sizedFormat,
              [Str ''layer-3'', Str ''downloading'',
               Bar (Finite (6004799503160661 / 18014398509481984)), Bytes 1, Bytes 3])"
    by (auto simp: round64_third)
  from 1 2 3 show ?thesis by blast
qed

text \<open>
  Claim C5.  A record whose status is \<^verbatim>\<open>resolving\<close> or \<^verbatim>\<open>waiting\<close> is written with
  the format without the size column and the bar 0; a record with any status other
  than these two, \<^verbatim>\<open>downloading\<close> and \<^verbatim>\<open>uploading\<close> is written with the same format
  and the bar 1.
\<close>

theorem display_plain_line:
  assumes "\<forall>s \<in> set pre. ErrorMessage s = []" and "ErrorMessage e = []"
    and "Status e \<noteq> ''downloading''" and "Status e \<noteq> ''uploading''"
  shows "snd (display w (pre @ e # post) start now1 now2) ! (length w + length pre)
         = (plainFormat,
            [Str (Ref e), Str (Status e),
             Bar (Finite (if Status e = ''resolving'' \<or> Status e = ''waiting'' then 0 else 1))])"
  using assms(3,4) by (auto simp: display_writer_line [OF assms(1,2)] eventLine_def)

theorem display_plain_line_witness:
  "snd (display [] [\<lparr>Ref = ''layer-1'', Status = ''waiting'', Offset = 0, Total = 0,
                      ErrorMessage = []\<rparr>,
                    \<lparr>Ref = ''layer-2'', Status = ''done'', Offset = 9, Total = 9,
                      ErrorMessage = []\<rparr>] 0 1 2) ! 0
     = (plainFormat, [Str ''layer-1'', Str ''waiting'', Bar (Finite 0)])
   \<and> snd (display [] [\<lparr>Ref = ''layer-1'', Status = ''waiting'', Offset = 0, Total = 0,
                      ErrorMessage = []\<rparr>,
                    \<lparr>Ref = ''layer-2'', Status = ''done'', Offset = 9, Total = 9,
                      ErrorMessage = []\<rparr>] 0 1 2) ! 1
     = (plainFormat, [Str ''layer-2'', Str ''done'', Bar (Finite 1)])"
  using display_plain_line
    [of "[]" "\<lparr>Ref = ''layer-1'', Status = ''waiting'', Offset = 0, Total = 0,
               ErrorMessage = []\<rparr>"
        "[]" "[\<lparr>Ref = ''layer-2'', Status = ''done'', Offset = 9, Total = 9,
               ErrorMessage = []\<rparr>]" 0 1 2]
    display_plain_line
    [of "[\<lparr>Ref = ''layer-1'', Status = ''waiting'', Offset = 0, Total = 0,
               ErrorMessage = []\<rparr>]"
        "\<lparr>Ref = ''layer-2'', Status = ''done'', Offset = 9, Total = 9,
               ErrorMessage = []\<rparr>" "[]" "[]" 0 1 2]
  by simp

text \<open>
  Claim C6.  As stated: for a batch without error messages \<^verbatim>\<open>display\<close> writes one
  line per record, in order, and then one summary line whose total is the sum of
  the offsets of the batch.  \<^verbatim>\<open>total\<close> is an \<^verbatim>\<open>int64\<close> and the addition wraps
  around: two records with the offset \<open>2 ^ 62\<close> give the total \<open>- (2 ^ 63)\<close>, not
  their sum.
\<close>

theorem display_summary_total_overflow:
  "\<not> (\<forall>statuses. (\<forall>s \<in> set statuses. ErrorMessage s = []) \<longrightarrow>
         (\<exists>t. last (snd (display [] statuses 0 1 2))
               = (summaryFormat, [Seconds 1, Bytes t, BytesPerSecond t 2])
             \<and> sint t = (\<Sum>s\<leftarrow>statuses. sint (Offset s))))"
proof
  let ?e = "\<lparr>Ref = ''a'', Status = ''downloading'', Offset = 4611686018427387904,
             Total = 4611686018427387904, ErrorMessage = []\<rparr>"
  assume "\<forall>statuses. (\<forall>s \<in> set statuses. ErrorMessage s = []) \<longrightarrow>
         (\<exists>t. last (snd (display [] statuses 0 1 2))
               = (summaryFormat, [Seconds 1, Bytes t, BytesPerSecond t 2])
             \<and> sint t = (\<Sum>s\<leftarrow>statuses. sint (Offset s)))"
  from this [rule_format, of "[?e, ?e]"]
  obtain t where "last (snd (display [] [?e, ?e] 0 1 2))
               = (summaryFormat, [Seconds 1, Bytes t, BytesPerSecond t 2])"
    and "sint t = (\<Sum>s\<leftarrow>[?e, ?e]. sint (Offset s))"
    by auto
  then show False
    by (simp add: display_def Fprintf_def)
qed

text \<open>
  Claim C6, amended.  For a batch without error messages \<^verbatim>\<open>display\<close> writes one
  line per record, in order, and then one summary line.  Its total is the sum of
  the offsets of this batch in \<^verbatim>\<open>int64\<close> arithmetic, that is modulo \<open>2 ^ 64\<close>; it is
  the sum itself when that lies in the range of \<^verbatim>\<open>int64\<close>.  The total starts at 0
  in every call, so no other batch counts.
\<close>

theorem display_summary_total:
  assumes "\<forall>s \<in> set statuses. ErrorMessage s = []"
  shows "\<exists>t. display w statuses start now1 now2
             = (None, w @ map eventLine statuses
                      @ [(summaryFormat,
                          [Seconds (now1 - start), Bytes t, BytesPerSecond t (now2 - start)])])
           \<and> t = word_of_int (\<Sum>s\<leftarrow>statuses. sint (Offset s))
           \<and> (- (2 ^ 63) \<le> (\<Sum>s\<leftarrow>statuses. sint (Offset s))
                \<and> (\<Sum>s\<leftarrow>statuses. sint (Offset s)) < 2 ^ 63
              \<longrightarrow> sint t = (\<Sum>s\<leftarrow>statuses. sint (Offset s)))"
proof -
  let ?t = "sum_list (map Offset statuses)"
  let ?k = "\<Sum>s\<leftarrow>statuses. sint (Offset s)"
  have t: "?t = word_of_int ?k"
    using sint_sum_list [of "map Offset statuses"] by (simp add: comp_def)
  have "sint ?t = ?k" if "- (2 ^ 63) \<le> ?k" "?k < 2 ^ 63"
    using that by (simp add: t sint_sbintrunc' signed_take_bit_int_eq_self)
  then show ?thesis
    using display_clean [OF assms, of w start now1 now2] t by auto
qed

theorem display_summary_total_witness:
  "display [] [\<lparr>Ref = ''a'', Status = ''downloading'', Offset = 50, Total = 100,
                 ErrorMessage = []\<rparr>,
               \<lparr>Ref = ''b'', Status = ''done'', Offset = 70, Total = 70,
                 ErrorMessage = []\<rparr>] 0 1 2
   = (None, [(sizedFormat, [Str ''a'', Str ''downloading'', Bar (Finite (1 / 2)), Bytes 50, Bytes 100]),
             (plainFormat, [Str ''b'', Str ''done'', Bar (Finite 1)]),
             (summaryFormat, [Seconds 1, Bytes 120, BytesPerSecond 120 2])])"
  using display_summary_total
    [of "[\<lparr>Ref = ''a'', Status = ''downloading'', Offset = 50, Total = 100,
                 ErrorMessage = []\<rparr>,
               \<lparr>Ref = ''b'', Status = ''done'', Offset = 70, Total = 70,
                 ErrorMessage = []\<rparr>]" "[]" 0 1 2]
  by (simp add: eventLine_def bar_half)

text \<open>
  Claim C7.  For the stream that is an empty array (with white space anywhere
  around the brackets) \<^verbatim>\<open>renderOutput\<close> returns \<^verbatim>\<open>nil\<close>: nothing is written to either
  writer or to the terminal, and the decoder has consumed the closing bracket.
\<close>

theorem empty_array_stream:
  assumes "\<forall>c \<in> set ws1. isSpace c" and "\<forall>c \<in> set ws2. isSpace c"
  shows "renderOutput lib clock (ws1 @ ''['' @ ws2 @ '']'' @ rest)
         = Some (None, \<lparr>dec = \<lparr>buf = rest, tokenState = tokenTopValue, tokenStack = []\<rparr>,
                        tw = [], fw = [], stdout = [], ticks = 1\<rparr>)"
proof -
  let ?d0 = "\<lparr>buf = ws1 @ CHR ''['' # ws2 @ CHR '']'' # rest, tokenState = tokenTopValue,
              tokenStack = []\<rparr>"
  let ?d0' = "\<lparr>buf = CHR ''['' # ws2 @ CHR '']'' # rest, tokenState = tokenTopValue,
              tokenStack = []\<rparr>"
  let ?d1 = "\<lparr>buf = ws2 @ CHR '']'' # rest, tokenState = tokenArrayStart,
              tokenStack = [tokenTopValue]\<rparr>"
  let ?d2 = "\<lparr>buf = CHR '']'' # rest, tokenState = tokenArrayStart,
              tokenStack = [tokenTopValue]\<rparr>"
  let ?d3 = "\<lparr>buf = rest, tokenState = tokenTopValue, tokenStack = []\<rparr>"
  let ?st = "\<lparr>dec = ?d0, tw = [], fw = [], stdout = [], ticks = 1\<rparr>"
  have p1: "peek ?d0 = (Inr CHR ''['', ?d0')"
    using peek_skip [OF assms(1), where c = "CHR ''[''" and d = ?d0
        and r = "ws2 @ CHR '']'' # rest"]
    by (simp add: isSpace_def)
  have t1: "Token lib ?d0 = (Inr (Delim CHR ''[''), ?d1)"
    by (simp add: Token_open_bracket [OF p1] tokenValueAllowed_def pushState_def)
  have p2: "peek ?d1 = (Inr CHR '']'', ?d2)"
    using peek_skip [OF assms(2), where c = "CHR '']''" and d = ?d1 and r = rest]
    by (simp add: isSpace_def)
  have m: "More ?d1 = (False, ?d2)"
    by (simp add: More_def p2)
  have l: "renderLoop lib clock (clock 0) (?st\<lparr>dec := ?d1\<rparr>) = Some (None, ?st\<lparr>dec := ?d2\<rparr>)"
    by (subst renderLoop.simps) (simp add: m)
  have p3: "peek ?d2 = (Inr CHR '']'', ?d2)"
    by (simp add: peek_def isSpace_def)
  have t2: "Token lib ?d2 = (Inr (Delim CHR '']''), ?d3)"
    by (simp add: Token_close_bracket [OF p3] popState_def tokenValueEnd_def)
  show ?thesis
    using t1 l t2 by (simp add: renderOutput_def Let_def NewDecoder_def)
qed

theorem empty_array_stream_witness:
  "renderOutput (tableJson []) int (''[ ]'' @ [CHR 0x0A])
   = Some (None, \<lparr>dec = \<lparr>buf = [CHR 0x0A], tokenState = tokenTopValue, tokenStack = []\<rparr>,
                  tw = [], fw = [], stdout = [], ticks = 1\<rparr>)"
proof -
  have 1: "\<forall>c \<in> set []. isSpace c" by simp
  have 2: "\<forall>c \<in> set '' ''. isSpace c" by (simp add: isSpace_def)
  show ?thesis
    using empty_array_stream [OF 1 2, of "tableJson []" int "[CHR 0x0A]"] by simp
qed

text \<open>
  Claim C8.  A batch that is encoded in the wire format and handed to \<^verbatim>\<open>Decode\<close>
  comes back as it was: the same records in the same order, every string and
  every number unchanged, and the decoder stands behind the batch's text.  This
  holds for the first batch of the stream and, after the comma, for a later one.
\<close>

theorem decode_encoded_batch:
  "Decode specJson (unmarshalBatch specJson) []
     \<lparr>buf = encodeBatch batch @ rest, tokenState = tokenArrayStart, tokenStack = stack\<rparr>
   = (None, batch, \<lparr>buf = rest, tokenState = tokenArrayComma, tokenStack = stack\<rparr>)
   \<and> Decode specJson (unmarshalBatch specJson) []
     \<lparr>buf = '','' @ encodeBatch batch @ rest, tokenState = tokenArrayComma, tokenStack = stack\<rparr>
   = (None, batch, \<lparr>buf = rest, tokenState = tokenArrayComma, tokenStack = stack\<rparr>)"
proof -
  have u: "unmarshalBatch specJson (encodeBatch batch) = (None, batch)"
    by (simp add: specJson_def parseBatch_encodeBatch)
  have p: "peek \<lparr>buf = CHR '','' # encodeBatch batch @ rest, tokenState = tokenArrayComma,
                  tokenStack = stack\<rparr>
           = (Inr CHR '','', \<lparr>buf = CHR '','' # encodeBatch batch @ rest,
                               tokenState = tokenArrayComma, tokenStack = stack\<rparr>)"
    by (simp add: peek_def isSpace_def)
  show ?thesis
    using u p
    by (simp add: Decode_def tokenPrepareForDecode_def tokenValueAllowed_def tokenValueEnd_def
        readValue_encodeBatch)
qed

theorem decode_encoded_batch_witness:
  \<open>Decode specJson (unmarshalBatch specJson) []
     \<lparr>buf = ''[{"reference":"a","status":"downloading","offset":50,"total":100,"errorMessage":""},{"reference":"b","status":"done","offset":7,"total":7,"errorMessage":"x'' @ [CHR 0x5C] @ ''u003cy"}]'' @ '']'',
      tokenState = tokenArrayStart, tokenStack = [tokenTopValue]\<rparr>
   = (None,
      [\<lparr>Ref = ''a'', Status = ''downloading'', Offset = 50, Total = 100, ErrorMessage = []\<rparr>,
       \<lparr>Ref = ''b'', Status = ''done'', Offset = 7, Total = 7, ErrorMessage = ''x<y''\<rparr>],
      \<lparr>buf = '']'', tokenState = tokenArrayComma, tokenStack = [tokenTopValue]\<rparr>)\<close>
  using decode_encoded_batch [of sampleBatch "'']''" "[tokenTopValue]"]
  by (simp only: sample_text) (simp add: sampleBatch_def)

text \<open>
  Claim C9.  In a round of the loop whose batch has a record with an error message,
  neither writer is flushed: the round and the loop return the error, the lines of
  the records before the failing one are in the \<^verbatim>\<open>tabwriter\<close>, and the buffer of the
  \<^verbatim>\<open>progress.Writer\<close> and the terminal are as they were before the round.
\<close>

theorem failing_batch_not_flushed:
  assumes "More (dec st) = (True, d0)"
    and "Decode lib (unmarshalBatch lib) [] d0 = (None, objs, d)"
    and "\<exists>s \<in> set objs. ErrorMessage s \<noteq> []"
  shows "\<exists>err st'. renderBatch lib clock start (st\<lparr>dec := d0\<rparr>) = (Some err, st')
           \<and> renderLoop lib clock start st = Some (Some err, st')
           \<and> stdout st' = stdout st \<and> fw st' = fw st
           \<and> tw st' = map eventLine (takeWhile (\<lambda>s. ErrorMessage s = []) objs)"
proof -
  from first_error_split [OF assms(3)] obtain pre e post where
    objs: "objs = pre @ e # post" and pre: "\<forall>s \<in> set pre. ErrorMessage s = []"
    and e: "ErrorMessage e \<noteq> []" by blast
  let ?st' = "st\<lparr>dec := d, tw := map eventLine pre\<rparr>"
  have dec: "Decode lib (unmarshalBatch lib) [] d0 = (None, pre @ e # post, d)"
    using assms(2) objs by simp
  have "renderBatch lib clock start (st\<lparr>dec := d0\<rparr>) = (Some (Errorf (ErrorMessage e)), ?st')"
    using renderBatch_abort [of lib "st\<lparr>dec := d0\<rparr>" pre e post d clock start] dec pre e
    by simp
  moreover have "renderLoop lib clock start st = Some (Some (Errorf (ErrorMessage e)), ?st')"
    by (rule renderLoop_abort [OF assms(1) dec pre e])
  moreover have "takeWhile (\<lambda>s. ErrorMessage s = []) objs = pre"
    using pre e by (simp add: objs takeWhile_append2)
  ultimately show ?thesis by simp
qed

theorem failing_batch_not_flushed_witness:
  "renderBatch (tableJson [(failingText, failingBatch)]) int 0 failingState
   = (Some (ErrorString ''boom''),
      failingState\<lparr>dec := \<lparr>buf = '']'', tokenState = tokenArrayComma,
                            tokenStack = [tokenTopValue]\<rparr>,
                    tw := [(sizedFormat,
                            [Str ''a'', Str ''downloading'', Bar (Finite (1 / 2)), Bytes 50,
                             Bytes 100])]\<rparr>)
   \<and> stdout failingState = [] \<and> fw failingState = []"
proof -
  have 3: "\<exists>s \<in> set failingBatch. ErrorMessage s \<noteq> []"
    by (simp add: failingBatch_def)
  from failing_batch_not_flushed [OF failing_More failing_Decode 3, of int 0]
  show ?thesis
    by (auto simp: failingBatch_def eventLine_def failingState_def renderBatch_def
        Decode_def tokenPrepareForDecode_def tokenValueAllowed_def tokenValueEnd_def
        tableJson_def display_def Errorf_def Fprintf_def bar_half)
qed

text \<open>
  Claim C10.  The rendering pass for a batch returns an error if and only if some
  record of the batch has a non-empty \<^verbatim>\<open>ErrorMessage\<close>.  So a batch whose records all
  have an empty \<^verbatim>\<open>ErrorMessage\<close> is rendered without error whatever their \<^verbatim>\<open>Ref\<close>,
  \<^verbatim>\<open>Status\<close>, \<^verbatim>\<open>Offset\<close> and \<^verbatim>\<open>Total\<close> are.
\<close>

theorem display_error_iff:
  "(fst (display w statuses start now1 now2) \<noteq> None)
   = (\<exists>s \<in> set statuses. ErrorMessage s \<noteq> [])"
proof (cases "\<exists>s \<in> set statuses. ErrorMessage s \<noteq> []")
  case True
  from first_error_split [OF this] obtain pre e post where
    "statuses = pre @ e # post" "\<forall>s \<in> set pre. ErrorMessage s = []" "ErrorMessage e \<noteq> []"
    by blast
  then have "fst (display w statuses start now1 now2) = Some (Errorf (ErrorMessage e))"
    by (simp add: display_abort)
  with True show ?thesis by simp
next
  case False
  then have "\<forall>s \<in> set statuses. ErrorMessage s = []" by simp
  then have "fst (display w statuses start now1 now2) = None"
    by (simp add: display_clean)
  with False show ?thesis by simp
qed

text \<open>
  A record with an empty reference, an unknown status and an offset above its
  total is rendered without error.
\<close>

theorem display_error_iff_witness:
  "fst (display [] [\<lparr>Ref = [], Status = ''verifying'', Offset = 7, Total = 3,
                     ErrorMessage = []\<rparr>] 0 1 2) = None"
  using display_error_iff
    [of "[]" "[\<lparr>Ref = [], Status = ''verifying'', Offset = 7, Total = 3, ErrorMessage = []\<rparr>]"
        0 1 2]
  by simp

end
